theory Spec2Isabelle
  imports Main "HOL-Library.Sublist" "HOL-Library.AList"
begin

section \<open>zvm.js: a shallow embedding\<close>

text \<open>
  The script \<^verbatim>\<open>zvm.js\<close> manages Zig toolchains under \<^verbatim>\<open>~/.zvm\<close>. Its handlers are
  asynchronous JavaScript functions over the file system, the network and the
  \<^verbatim>\<open>tar\<close> command. The embedding makes that environment explicit:

  \<^item> a thrown JavaScript error is a value \<open>exn\<close> (its \<^verbatim>\<open>code\<close> property and its message),
    and a function that can throw returns \<open>exn + 'a\<close>;
  \<^item> the part of the disk the script owns is a record \<open>world\<close>;
  \<^item> a handler that writes takes a \<open>state\<close> (the current world and the history of
    the effects performed so far, each with the world it left behind) and returns its
    result with the new state;
  \<^item> what the outside decides (responses of the network, faults of \<^verbatim>\<open>rename\<close>, the
    platform) is a record \<open>env\<close>.

  An absent argument (\<^verbatim>\<open>undefined\<close>) and the empty string are both falsy and the
  script only ever tests them with \<^verbatim>\<open>!x\<close>, \<^verbatim>\<open>if (x)\<close> and \<^verbatim>\<open>x || y\<close>; both are the empty
  string here. Strings are byte strings; the script's tests on them (substring,
  prefix, equality) agree on UTF-8 and UTF-16.
\<close>

subsection \<open>Errors\<close>

datatype exn = Exn (code: "string option") (message: string)

definition sys_error :: "string \<Rightarrow> string \<Rightarrow> exn" where
  "sys_error c what = Exn (Some c) (c @ '': '' @ what)"

definition ENOENT :: "string \<Rightarrow> exn" where
  "ENOENT what = sys_error ''ENOENT'' (''no such file or directory, '' @ what)"

definition is_code :: "exn \<Rightarrow> string \<Rightarrow> bool" where
  \<comment> \<open>\<^verbatim>\<open>e.code === c\<close>\<close>
  "is_code e c = (code e = Some c)"

subsection \<open>The alias store\<close>

text \<open>
  The alias file is absent, unreadable (\<^verbatim>\<open>fs.readFile\<close> throws an error other than by
  absence), not JSON (\<^verbatim>\<open>JSON.parse\<close> throws a \<^verbatim>\<open>SyntaxError\<close>, which has no \<^verbatim>\<open>code\<close>), or a
  JSON object of strings, kept as an association list in the order of its keys.
  Files holding other JSON values are outside the model.
\<close>

datatype alias_file =
    NoFile
  | ReadFails exn
  | BadJson string
  | JsonObject "(string \<times> string) list"

type_synonym dir = "(string \<times> string) list"

text \<open>
  What \<^verbatim>\<open>tar\<close> does with a downloaded file: \<^verbatim>\<open>tar -tf\<close> fails or prints a listing;
  \<^verbatim>\<open>tar -xf ... --strip-components=1 -C d\<close> writes files (path below \<open>d\<close>, content)
  one after the other and then fails or succeeds.
\<close>

datatype blob = Blob (tar_list: "exn + string") (tar_writes: "(string \<times> string) list")
  (tar_fail: "exn option")

text \<open>
  The directory \<^verbatim>\<open>~/.zvm/shims\<close> is created by \<^verbatim>\<open>zvm init\<close> only. The Active Link
  \<^verbatim>\<open>~/.zvm/shims/active\<close> is absent or a link with a target path and a link type.
\<close>

datatype shims = NoShimsDir | Shims "(string \<times> string) option"

text \<open>
  \<open>versions\<close> is the installation root \<^verbatim>\<open>~/.zvm/versions\<close>: \<open>None\<close> when the directory
  does not exist, otherwise its entries in listing order, each with the files below it.
  An entry is identified by its name: \<^verbatim>\<open>path.join(INSTALL_BASE_DIR, n)\<close> is the entry \<open>n\<close>,
  and an operation on it touches no other entry (names are single path components).
  \<open>tmp\<close> holds the files of the temporary directory.
\<close>

record world =
  alias_file :: alias_file
  versions :: "(string \<times> dir) list option"
  shims :: shims
  tmp :: "(string \<times> blob) list"

definition read_aliases_file :: "world \<Rightarrow> exn + (string \<times> string) list" where
  \<comment> \<open>\<^verbatim>\<open>JSON.parse(await fs.readFile(ALIASES_FILE, 'utf-8'))\<close>\<close>
  "read_aliases_file w =
     (case alias_file w of
        NoFile \<Rightarrow> Inl (ENOENT ''open aliases.json'')
      | ReadFails e \<Rightarrow> Inl e
      | BadJson msg \<Rightarrow> Inl (Exn None msg)
      | JsonObject m \<Rightarrow> Inr m)"

definition getAliases :: "world \<Rightarrow> exn + (string \<times> string) list" where
  "getAliases w =
     (case read_aliases_file w of
        Inr m \<Rightarrow> Inr m
      | Inl e \<Rightarrow> if is_code e ''ENOENT'' then Inr [] else Inl e)"

subsection \<open>Property lookup on the alias object\<close>

text \<open>
  \<^verbatim>\<open>JSON.parse\<close> returns an ordinary object, so \<^verbatim>\<open>aliases[k]\<close> finds the members of
  \<^verbatim>\<open>Object.prototype\<close> too when \<open>k\<close> is not a key of the file: a function, or the
  prototype itself for \<^verbatim>\<open>__proto__\<close>. Such a value is truthy and is not a string.
\<close>

datatype jsval = Undefined | Str string | Native string

definition object_prototype_props :: "string list" where
  "object_prototype_props =
     [''constructor'', ''__defineGetter__'', ''__defineSetter__'', ''hasOwnProperty'',
      ''__lookupGetter__'', ''__lookupSetter__'', ''isPrototypeOf'',
      ''propertyIsEnumerable'', ''toString'', ''valueOf'', ''__proto__'',
      ''toLocaleString'']"

definition js_get :: "(string \<times> string) list \<Rightarrow> string \<Rightarrow> jsval" where
  "js_get obj k =
     (case map_of obj k of
        Some v \<Rightarrow> Str v
      | None \<Rightarrow> if k \<in> set object_prototype_props then Native k else Undefined)"

definition truthy :: "jsval \<Rightarrow> bool" where
  "truthy v = (case v of Undefined \<Rightarrow> False | Str s \<Rightarrow> s \<noteq> [] | Native _ \<Rightarrow> True)"

definition to_string :: "jsval \<Rightarrow> string" where
  \<comment> \<open>the text a value takes in a template or as the argument of \<^verbatim>\<open>String.includes\<close>,
      as V8 prints built-in functions\<close>
  "to_string v =
     (case v of
        Undefined \<Rightarrow> ''undefined''
      | Str s \<Rightarrow> s
      | Native k \<Rightarrow>
          if k = ''__proto__'' then ''[object Object]''
          else ''function '' @ (if k = ''constructor'' then ''Object'' else k)
               @ ''() { [native code] }'')"

definition str_includes :: "string \<Rightarrow> string \<Rightarrow> bool" where
  \<comment> \<open>\<^verbatim>\<open>s.includes(t)\<close>\<close>
  "str_includes s t = sublist t s"

definition js_or :: "jsval \<Rightarrow> string \<Rightarrow> jsval" where
  \<comment> \<open>\<^verbatim>\<open>v || s\<close>\<close>
  "js_or v s = (if truthy v then v else Str s)"

subsection \<open>Resolving a version or an alias\<close>

definition readdir_root :: "world \<Rightarrow> exn + string list" where
  \<comment> \<open>\<^verbatim>\<open>fs.readdir(INSTALL_BASE_DIR)\<close>\<close>
  "readdir_root w =
     (case versions w of
        None \<Rightarrow> Inl (ENOENT ''scandir versions'')
      | Some vs \<Rightarrow> Inr (map fst vs))"

definition pick_match :: "jsval \<Rightarrow> string list \<Rightarrow> string option" where
  \<comment> \<open>the three \<^verbatim>\<open>return\<close>s of \<open>resolveVersion\<close> after the filter; \<open>None\<close> is \<^verbatim>\<open>null\<close>\<close>
  "pick_match targetVersion matchingDirs =
     (if length matchingDirs = 1 then Some (hd matchingDirs)
      else if (case targetVersion of Str t \<Rightarrow> t \<in> set matchingDirs | _ \<Rightarrow> False)
      then Some (to_string targetVersion)
      else (case matchingDirs of
              [] \<Rightarrow> None
            | d # _ \<Rightarrow> if d = [] then None else Some d))"

definition resolveVersion :: "world \<Rightarrow> string \<Rightarrow> exn + string option" where
  "resolveVersion w versionOrAlias =
     (if versionOrAlias = [] then Inr None
      else case getAliases w of
        Inl e \<Rightarrow> Inl e
      | Inr aliases \<Rightarrow>
          let targetVersion = js_or (js_get aliases versionOrAlias) versionOrAlias
          in case readdir_root w of
               Inl e \<Rightarrow> if is_code e ''ENOENT'' then Inr None else Inl e
             | Inr dirs \<Rightarrow>
                 let matchingDirs = filter (\<lambda>dir. str_includes dir (to_string targetVersion)) dirs
                 in Inr (pick_match targetVersion matchingDirs))"

subsection \<open>Strings and paths\<close>

definition newline :: char where
  "newline = CHR 0x0A"

definition is_space :: "char \<Rightarrow> bool" where
  \<comment> \<open>the ASCII white space and line terminators that \<^verbatim>\<open>trim\<close> removes\<close>
  "is_space c = (c \<in> set [CHR 0x09, CHR 0x0A, CHR 0x0B, CHR 0x0C, CHR 0x0D, CHR '' ''])"

definition trim :: "string \<Rightarrow> string" where
  "trim s = rev (dropWhile is_space (rev (dropWhile is_space s)))"

fun split_on :: "char \<Rightarrow> string \<Rightarrow> string list" where
  \<comment> \<open>\<^verbatim>\<open>s.split(c)\<close>: never empty\<close>
  "split_on c [] = [[]]"
| "split_on c (x # xs) =
     (if x = c then [] # split_on c xs
      else (case split_on c xs of p # ps \<Rightarrow> (x # p) # ps | [] \<Rightarrow> [[x]]))"

fun join :: "string \<Rightarrow> string list \<Rightarrow> string" where
  "join sep [] = []"
| "join sep [x] = x"
| "join sep (x # y # ys) = x @ sep @ join sep (y # ys)"

fun digit_char :: "nat \<Rightarrow> char" where
  "digit_char n = (''0123456789'' ! (n mod 10))"

fun dec :: "nat \<Rightarrow> string" where
  \<comment> \<open>a number in a template string\<close>
  "dec n = (if n < 10 then [digit_char n] else dec (n div 10) @ [digit_char n])"

declare dec.simps [simp del]

definition path_join :: "string \<Rightarrow> string \<Rightarrow> string" where
  \<comment> \<open>\<^verbatim>\<open>path.join(a, b)\<close> for a component \<open>b\<close>\<close>
  "path_join a b = a @ ''/'' @ b"

definition basename :: "string \<Rightarrow> string" where
  \<comment> \<open>\<^verbatim>\<open>path.basename(p)\<close>: the last component, trailing separators ignored\<close>
  "basename p =
     rev (takeWhile (\<lambda>c. c \<noteq> CHR ''/'') (dropWhile (\<lambda>c. c = CHR ''/'') (rev p)))"

subsection \<open>The environment\<close>

datatype response = Response (ok: bool) (body: blob) (body_error: "exn option")

text \<open>
  \<open>head\<close> and \<open>get\<close> answer \<^verbatim>\<open>fetch(url, {method: 'HEAD'})\<close> and \<^verbatim>\<open>fetch(url)\<close>: the
  request throws, or a response arrives. Writing the body of a response to disk
  leaves \<open>body\<close> in the file and fails when \<open>body_error\<close> says so. \<open>mirrors_text\<close>
  answers the request for the mirror list: a throw, a response that is not ok, or
  the text. \<open>rename_fault i\<close> is the fault that the operating system injects into the
  \<open>i\<close>-th attempt to rename (a scanner holding the directory). \<open>version_file d\<close> reads
  \<^verbatim>\<open>.zig-version\<close> in the directory with components \<open>d\<close>, innermost first.
\<close>

record env =
  platform :: string
  arch :: string
  homedir :: string
  tmpdir :: string
  now :: nat
  zvm_initialized :: bool
  mirrors_text :: "exn + string option"
  head :: "string \<Rightarrow> exn + bool"
  get :: "string \<Rightarrow> exn + response"
  rename_fault :: "nat \<Rightarrow> exn option"
  cwd :: "string list"
  version_file :: "string list \<Rightarrow> exn + string"

definition ZIG_CANONICAL_URL :: string where
  "ZIG_CANONICAL_URL = ''https://ziglang.org''"


definition ZVM_DIR :: "env \<Rightarrow> string" where
  "ZVM_DIR env = path_join (homedir env) ''.zvm''"

definition INSTALL_BASE_DIR :: "env \<Rightarrow> string" where
  "INSTALL_BASE_DIR env = path_join (ZVM_DIR env) ''versions''"

definition SHIMS_DIR :: "env \<Rightarrow> string" where
  "SHIMS_DIR env = path_join (ZVM_DIR env) ''shims''"

definition ACTIVE_VERSION_LINK :: "env \<Rightarrow> string" where
  "ACTIVE_VERSION_LINK env = path_join (SHIMS_DIR env) ''active''"

definition ALIASES_FILE :: "env \<Rightarrow> string" where
  "ALIASES_FILE env = path_join (ZVM_DIR env) ''aliases.json''"

subsection \<open>Effects and their history\<close>

text \<open>
  Every call that leaves the process is an event: a line on the console (named by the
  logging function, without its colours), a request, a sleep, a change of the disk.
  \<open>Rename old new fault\<close> is one attempt to rename an entry of the installation root;
  it changes the disk only when \<open>fault\<close> is \<open>None\<close>.
\<close>

datatype event =
    Log string
  | LogInfo string
  | LogSuccess string
  | LogError string
  | LogWarn string
  | Fetch string string
  | WriteTmp string blob
  | UnlinkTmp string
  | TarList string
  | Mkdir string
  | TarWrite string string string
  | Rename string string "exn option"
  | Sleep nat
  | Rm string
  | WriteAliases "(string \<times> string) list"
  | UnlinkLink
  | Symlink string string

definition entries :: "world \<Rightarrow> (string \<times> dir) list" where
  "entries w = (case versions w of None \<Rightarrow> [] | Some vs \<Rightarrow> vs)"

definition entry_exists :: "world \<Rightarrow> string \<Rightarrow> bool" where
  "entry_exists w n = (n \<in> set (map fst (entries w)))"

definition rename_entry :: "string \<Rightarrow> string \<Rightarrow> (string \<times> dir) list \<Rightarrow> (string \<times> dir) list" where
  \<comment> \<open>the entry \<open>old\<close> takes the name \<open>new\<close>, replacing an entry of that name\<close>
  "rename_entry old new vs =
     map (\<lambda>(k, d). if k = old then (new, d) else (k, d)) (filter (\<lambda>(k, d). k \<noteq> new) vs)"

fun apply_event :: "event \<Rightarrow> world \<Rightarrow> world" where
  "apply_event (WriteTmp f b) w = w\<lparr>tmp := AList.update f b (tmp w)\<rparr>"
| "apply_event (UnlinkTmp f) w = w\<lparr>tmp := AList.delete f (tmp w)\<rparr>"
| "apply_event (Mkdir n) w =
     (if entry_exists w n then w else w\<lparr>versions := Some (entries w @ [(n, [])])\<rparr>)"
| "apply_event (TarWrite n p c) w =
     (case versions w of
        None \<Rightarrow> w
      | Some vs \<Rightarrow> w\<lparr>versions := Some (AList.map_entry n (AList.update p c) vs)\<rparr>)"
| "apply_event (Rename old new fault) w =
     (case (fault, versions w) of
        (None, Some vs) \<Rightarrow> w\<lparr>versions := Some (rename_entry old new vs)\<rparr>
      | _ \<Rightarrow> w)"
| "apply_event (Rm n) w =
     (case versions w of
        None \<Rightarrow> w
      | Some vs \<Rightarrow> w\<lparr>versions := Some (AList.delete n vs)\<rparr>)"
| "apply_event (WriteAliases m) w = w\<lparr>alias_file := JsonObject m\<rparr>"
| "apply_event UnlinkLink w =
     (case shims w of NoShimsDir \<Rightarrow> w | Shims l \<Rightarrow> w\<lparr>shims := Shims None\<rparr>)"
| "apply_event (Symlink target ty) w =
     (case shims w of NoShimsDir \<Rightarrow> w | Shims l \<Rightarrow> w\<lparr>shims := Shims (Some (target, ty))\<rparr>)"
| "apply_event ev w = w"

record state =
  cur :: world
  hist :: "(event \<times> world) list"

definition emit :: "event \<Rightarrow> state \<Rightarrow> state" where
  "emit ev s =
     (let w = apply_event ev (cur s) in \<lparr>cur = w, hist = hist s @ [(ev, w)]\<rparr>)"

definition start :: "world \<Rightarrow> state" where
  "start w = \<lparr>cur = w, hist = []\<rparr>"

definition events :: "state \<Rightarrow> event list" where
  "events s = map fst (hist s)"

definition since :: "state \<Rightarrow> state \<Rightarrow> event list" where
  \<comment> \<open>the events of \<open>s'\<close> that came after \<open>s\<close>\<close>
  "since s s' = drop (length (hist s)) (events s')"

subsection \<open>Renaming with retries\<close>

definition rename_result :: "env \<Rightarrow> nat \<Rightarrow> string \<Rightarrow> string \<Rightarrow> world \<Rightarrow> exn option" where
  \<comment> \<open>what the \<open>i\<close>-th \<^verbatim>\<open>fs.rename(old, new)\<close> throws, if anything\<close>
  "rename_result env i old new w =
     (if \<not> entry_exists w old then Some (ENOENT ''rename'')
      else case rename_fault env i of
        Some e \<Rightarrow> Some e
      | None \<Rightarrow>
          (case map_of (entries w) new of
             Some (f # fs) \<Rightarrow> Some (sys_error ''ENOTEMPTY'' ''directory not empty, rename'')
           | _ \<Rightarrow> None))"

definition fs_rename :: "env \<Rightarrow> nat \<Rightarrow> string \<Rightarrow> string \<Rightarrow> state \<Rightarrow> (exn + unit) \<times> state" where
  "fs_rename env i old new s =
     (let fault = rename_result env i old new (cur s);
          s' = emit (Rename old new fault) s
      in case fault of Some e \<Rightarrow> (Inl e, s') | None \<Rightarrow> (Inr (), s'))"

definition retries :: nat where
  "retries = 5"

definition delay :: nat where
  "delay = 300"

definition retry_warning :: "nat \<Rightarrow> event" where
  "retry_warning i =
     LogWarn (''Rename failed, retrying in '' @ dec delay @ ''ms... ('' @ dec (i + 1) @ ''/''
              @ dec retries @ '')'')"

function renameWithRetry_loop ::
  "env \<Rightarrow> string \<Rightarrow> string \<Rightarrow> nat \<Rightarrow> state \<Rightarrow> (exn + unit) \<times> state" where
  "renameWithRetry_loop env oldPath newPath i s =
     (if i < retries then
        (case fs_rename env i oldPath newPath s of
           (Inr u, s') \<Rightarrow> (Inr (), s')
         | (Inl e, s') \<Rightarrow>
             if is_code e ''EPERM'' \<and> i < retries - 1 then
               renameWithRetry_loop env oldPath newPath (i + 1)
                 (emit (Sleep delay) (emit (retry_warning i) s'))
             else (Inl e, s'))
      else (Inr (), s))"
  by pat_completeness auto
termination
  by (relation "measure (\<lambda>(env, oldPath, newPath, i, s). retries - i)") auto

declare renameWithRetry_loop.simps [simp del]

definition renameWithRetry :: "env \<Rightarrow> string \<Rightarrow> string \<Rightarrow> state \<Rightarrow> (exn + unit) \<times> state" where
  "renameWithRetry env oldPath newPath s = renameWithRetry_loop env oldPath newPath 0 s"

subsection \<open>Downloading from the first source that has the file\<close>

definition tempFile :: "env \<Rightarrow> string" where
  "tempFile env = path_join (tmpdir env) (''zig-download-'' @ dec (now env))"

definition warn_failed_url :: "string \<Rightarrow> exn \<Rightarrow> event" where
  "warn_failed_url url e =
     LogWarn (''Failed to process URL '' @ url @ ''. Error: '' @ message e @ ''. Trying next...'')"

definition try_url :: "env \<Rightarrow> string \<Rightarrow> state \<Rightarrow> bool \<times> state" where
  \<comment> \<open>the body of the inner loop for one URL; \<open>True\<close> when it reaches \<^verbatim>\<open>return\<close>\<close>
  "try_url env url s =
     (let s1 = emit (Fetch ''HEAD'' url) s
      in case head env url of
           Inl e \<Rightarrow> (False, emit (warn_failed_url url e) s1)
         | Inr headOk \<Rightarrow>
             if \<not> headOk then (False, s1)
             else
               let s2 = emit (LogInfo (''  Attempting download from: '' @ url)) s1;
                   s3 = emit (Fetch ''GET'' url) s2
               in case get env url of
                    Inl e \<Rightarrow> (False, emit (warn_failed_url url e) s3)
                  | Inr getResponse \<Rightarrow>
                      if \<not> ok getResponse then (False, s3)
                      else
                        let s4 = emit (WriteTmp (tempFile env) (body getResponse)) s3
                        in case body_error getResponse of
                             Some e \<Rightarrow> (False, emit (warn_failed_url url e) s4)
                           | None \<Rightarrow>
                               (True, emit (LogSuccess (''Download successful from: '' @ url)) s4))"

fun try_filenames :: "env \<Rightarrow> string \<Rightarrow> string list \<Rightarrow> state \<Rightarrow> string option \<times> state" where
  \<comment> \<open>the inner loop; \<open>Some f\<close> when the function returns \<open>f\<close> from inside it\<close>
  "try_filenames env baseUrl [] s = (None, s)"
| "try_filenames env baseUrl (filename # rest) s =
     (case try_url env (baseUrl @ ''/'' @ filename) s of
        (True, s') \<Rightarrow> (Some (tempFile env), s')
      | (False, s') \<Rightarrow> try_filenames env baseUrl rest s')"

definition download_failed :: exn where
  "download_failed =
     Exn None ''Failed to download Zig from all available mirrors and the canonical source.''"

fun attemptDownload :: "env \<Rightarrow> string list \<Rightarrow> string list \<Rightarrow> state \<Rightarrow> (exn + string) \<times> state" where
  "attemptDownload env [] filenames s = (Inl download_failed, s)"
| "attemptDownload env (baseUrl # rest) filenames s =
     (case try_filenames env baseUrl filenames s of
        (Some downloadedFile, s') \<Rightarrow> (Inr downloadedFile, s')
      | (None, s') \<Rightarrow> attemptDownload env rest filenames s')"

subsection \<open>Locating the package\<close>

definition platformMap :: "(string \<times> string) list" where
  "platformMap = [(''linux'', ''linux''), (''darwin'', ''macos''), (''win32'', ''windows'')]"

definition archMap :: "(string \<times> string) list" where
  "archMap = [(''x64'', ''x86_64''), (''arm64'', ''aarch64'')]"

definition getPlatformInfo :: "env \<Rightarrow> exn + string \<times> string" where
  "getPlatformInfo env =
     (case (map_of platformMap (platform env), map_of archMap (arch env)) of
        (Some os_target, Some arch_target) \<Rightarrow> Inr (os_target, arch_target)
      | _ \<Rightarrow> Inl (Exn None (''Unsupported platform/architecture: '' @ platform env @ ''/''
                             @ arch env)))"

text \<open>
  The regular expression \<^verbatim>\<open>/\d+\.\d+\.\d+(-dev\.\d+\+[0-9a-f]+)?/\<close>. A matcher takes the
  text at a position and returns what it consumed and the rest. \<^verbatim>\<open>\d+\<close> and
  \<^verbatim>\<open>[0-9a-f]+\<close> are greedy; each is followed by a character outside its class or by
  nothing that can fail, so giving characters back never turns a failure into a
  match and the longest run is the one the engine keeps. \<^verbatim>\<open>match\<close> without the \<^verbatim>\<open>g\<close>
  flag tries the positions from the left and stops at the first that matches.
\<close>

type_synonym matcher = "string \<Rightarrow> (string \<times> string) option"

definition is_digit :: "char \<Rightarrow> bool" where
  "is_digit c = (c \<in> set ''0123456789'')"

definition is_hex :: "char \<Rightarrow> bool" where
  "is_hex c = (c \<in> set ''0123456789abcdef'')"

definition plus_of :: "(char \<Rightarrow> bool) \<Rightarrow> matcher" where
  "plus_of cls s =
     (if takeWhile cls s = [] then None else Some (takeWhile cls s, dropWhile cls s))"

definition lit :: "string \<Rightarrow> matcher" where
  "lit t s = (if prefix t s then Some (t, drop (length t) s) else None)"

definition seq :: "matcher \<Rightarrow> matcher \<Rightarrow> matcher" where
  "seq m1 m2 s =
     (case m1 s of
        None \<Rightarrow> None
      | Some (a, r) \<Rightarrow> (case m2 r of None \<Rightarrow> None | Some (b, r') \<Rightarrow> Some (a @ b, r')))"

definition opt :: "matcher \<Rightarrow> matcher" where
  "opt m s = (case m s of None \<Rightarrow> Some ([], s) | Some x \<Rightarrow> Some x)"

definition version_core :: matcher where
  "version_core =
     seq (plus_of is_digit) (seq (lit ''.'') (seq (plus_of is_digit)
       (seq (lit ''.'') (plus_of is_digit))))"

definition dev_suffix :: matcher where
  "dev_suffix =
     seq (lit ''-dev.'') (seq (plus_of is_digit) (seq (lit ''+'') (plus_of is_hex)))"

definition version_regex :: matcher where
  "version_regex = seq version_core (opt dev_suffix)"

fun regex_match :: "matcher \<Rightarrow> string \<Rightarrow> string option" where
  \<comment> \<open>\<^verbatim>\<open>s.match(re)\<close>: \<open>None\<close> for \<^verbatim>\<open>null\<close>, else element 0 of the result\<close>
  "regex_match m [] = (case m [] of Some (a, r) \<Rightarrow> Some a | None \<Rightarrow> None)"
| "regex_match m (c # cs) =
     (case m (c # cs) of Some (a, r) \<Rightarrow> Some a | None \<Rightarrow> regex_match m cs)"

definition null_index :: exn where
  \<comment> \<open>the \<^verbatim>\<open>TypeError\<close> of \<^verbatim>\<open>null[0]\<close>\<close>
  "null_index =
     Exn None (''Cannot read properties of null (reading '' @ [CHR 0x27, CHR ''0'', CHR 0x27]
               @ '')'')"

definition normalize :: "string \<Rightarrow> exn + string" where
  \<comment> \<open>\<open>zigVersionNorm\<close>\<close>
  "normalize zigVersion =
     (if \<not> str_includes zigVersion ''-dev'' then
        (case regex_match version_regex zigVersion of
           None \<Rightarrow> Inl null_index
         | Some m \<Rightarrow> Inr m)
      else Inr zigVersion)"

definition getZigPackageInfo :: "env \<Rightarrow> string \<Rightarrow> exn + string \<times> string list" where
  "getZigPackageInfo env zigVersion =
     (case getPlatformInfo env of
        Inl e \<Rightarrow> Inl e
      | Inr (os_target, arch_target) \<Rightarrow>
          let isWindows = (os_target = ''windows'');
              extension = (if isWindows then ''zip'' else ''tar.xz'');
              isDevBuild = str_includes zigVersion ''-dev''
          in case normalize zigVersion of
               Inl e \<Rightarrow> Inl e
             | Inr zigVersionNorm \<Rightarrow>
                 let potentialFilenames =
                       [''zig-'' @ os_target @ ''-'' @ arch_target @ ''-'' @ zigVersionNorm
                          @ ''.'' @ extension,
                        ''zig-'' @ arch_target @ ''-'' @ os_target @ ''-'' @ zigVersionNorm
                          @ ''.'' @ extension];
                     canonicalBase =
                       (if isDevBuild then ZIG_CANONICAL_URL @ ''/builds''
                        else ZIG_CANONICAL_URL @ ''/download/'' @ zigVersion)
                 in Inr (canonicalBase, potentialFilenames))"

subsection \<open>The Active Link\<close>

definition quoted :: "string \<Rightarrow> string" where
  "quoted s = [CHR 0x22] @ s @ [CHR 0x22]"

definition fs_readlink :: "world \<Rightarrow> exn + string" where
  \<comment> \<open>\<^verbatim>\<open>fs.readlink(ACTIVE_VERSION_LINK)\<close>\<close>
  "fs_readlink w =
     (case shims w of
        Shims (Some (target, ty)) \<Rightarrow> Inr target
      | _ \<Rightarrow> Inl (ENOENT ''readlink active''))"

definition fs_unlink_link :: "state \<Rightarrow> (exn + unit) \<times> state" where
  \<comment> \<open>\<^verbatim>\<open>fs.unlink(ACTIVE_VERSION_LINK)\<close>\<close>
  "fs_unlink_link s =
     (case shims (cur s) of
        Shims (Some l) \<Rightarrow> (Inr (), emit UnlinkLink s)
      | _ \<Rightarrow> (Inl (ENOENT ''unlink active''), s))"

definition fs_symlink :: "string \<Rightarrow> string \<Rightarrow> state \<Rightarrow> (exn + unit) \<times> state" where
  \<comment> \<open>\<^verbatim>\<open>fs.symlink(target, ACTIVE_VERSION_LINK, type)\<close>\<close>
  "fs_symlink target ty s =
     (case shims (cur s) of
        NoShimsDir \<Rightarrow> (Inl (ENOENT ''symlink active''), s)
      | Shims (Some l) \<Rightarrow> (Inl (sys_error ''EEXIST'' ''file already exists, symlink active''), s)
      | Shims None \<Rightarrow> (Inr (), emit (Symlink target ty) s))"

definition init_hint :: "env \<Rightarrow> state \<Rightarrow> state" where
  "init_hint env s =
     (if \<not> zvm_initialized env then
        emit (LogWarn ([newline] @ ''Run 'zvm init' and follow its instructions to apply this change to your shell.'')) s
      else s)"

definition handleDeactivate :: "env \<Rightarrow> state \<Rightarrow> (exn + unit) \<times> state" where
  "handleDeactivate env s =
     (case fs_unlink_link s of
        (Inr u, s1) \<Rightarrow>
          (Inr (), init_hint env
                     (emit (LogSuccess ''Deactivated Zig. No version is currently active.'') s1))
      | (Inl e, s1) \<Rightarrow>
          if is_code e ''ENOENT'' then
            (Inr (), emit (LogInfo ''No version is currently active.'') s1)
          else (Inl e, emit (LogError (''Error during deactivation: '' @ message e)) s1))"

fun find_version_file :: "(string list \<Rightarrow> exn + string) \<Rightarrow> string list \<Rightarrow> exn + string option" where
  \<comment> \<open>the loop of \<open>findLocalVersionFile\<close>; the root has no components\<close>
  "find_version_file rd [] =
     (case rd [] of
        Inr content \<Rightarrow> Inr (Some (trim content))
      | Inl e \<Rightarrow> if \<not> is_code e ''ENOENT'' then Inl e else Inr None)"
| "find_version_file rd (d # ds) =
     (case rd (d # ds) of
        Inr content \<Rightarrow> Inr (Some (trim content))
      | Inl e \<Rightarrow> if \<not> is_code e ''ENOENT'' then Inl e else find_version_file rd ds)"

definition findLocalVersionFile :: "env \<Rightarrow> exn + string option" where
  "findLocalVersionFile env = find_version_file (version_file env) (cwd env)"

definition create_link :: "env \<Rightarrow> string \<Rightarrow> string \<Rightarrow> state \<Rightarrow> (exn + unit) \<times> state" where
  \<comment> \<open>\<open>handleUse\<close> after the old link is gone\<close>
  "create_link env dirToActivate sourceDir s =
     (let s1 = emit (LogInfo (''Activating '' @ dirToActivate @ ''...'')) s;
          linkType = (if platform env = ''win32'' then ''junction'' else ''dir'')
      in case fs_symlink sourceDir linkType s1 of
           (Inl e, s2) \<Rightarrow> (Inl e, s2)
         | (Inr u, s2) \<Rightarrow>
             (Inr (), init_hint env
                        (emit (LogSuccess (''Now using '' @ dirToActivate @ ''.'')) s2)))"

definition activate :: "env \<Rightarrow> string \<Rightarrow> state \<Rightarrow> (exn + unit) \<times> state" where
  \<comment> \<open>the end of \<open>handleUse\<close>, from \<^verbatim>\<open>const sourceDir\<close> on\<close>
  "activate env dirToActivate s =
     (let sourceDir = path_join (INSTALL_BASE_DIR env) dirToActivate
      in case fs_unlink_link s of
           (Inl e, s1) \<Rightarrow>
             if \<not> is_code e ''ENOENT'' then (Inl e, s1)
             else create_link env dirToActivate sourceDir s1
         | (Inr u, s1) \<Rightarrow> create_link env dirToActivate sourceDir s1)"

definition use_target :: "env \<Rightarrow> string \<Rightarrow> state \<Rightarrow> (exn + unit) \<times> state" where
  \<comment> \<open>\<open>handleUse\<close> from \<^verbatim>\<open>const dirToActivate\<close> on\<close>
  "use_target env target s =
     (case resolveVersion (cur s) target of
        Inl e \<Rightarrow> (Inl e, s)
      | Inr None \<Rightarrow>
          (Inr (), emit (LogInfo (''To install it, run: zvm install '' @ target))
                     (emit (LogError (''Version '' @ quoted target @ '' is not installed.'')) s))
      | Inr (Some dirToActivate) \<Rightarrow>
          if dirToActivate = [] then
            (Inr (), emit (LogInfo (''To install it, run: zvm install '' @ target))
                       (emit (LogError (''Version '' @ quoted target @ '' is not installed.'')) s))
          else activate env dirToActivate s)"

definition handleUse :: "env \<Rightarrow> string \<Rightarrow> state \<Rightarrow> (exn + unit) \<times> state" where
  "handleUse env versionToUse s =
     (if versionToUse = [] then
        (case findLocalVersionFile env of
           Inl e \<Rightarrow> (Inl e, s)
         | Inr found \<Rightarrow>
             let target = (case found of None \<Rightarrow> [] | Some t \<Rightarrow> t)
             in if target = [] then
                  (Inr (), emit (LogError ''No version specified and no .zig-version file found in the current directory or parents.'') s)
                else use_target env target
                       (emit (LogInfo (''Found .zig-version file, attempting to use: '' @ target)) s))
      else use_target env versionToUse s)"

subsection \<open>Removing a version\<close>

definition js_set :: "(string \<times> string) list \<Rightarrow> string \<Rightarrow> string \<Rightarrow> (string \<times> string) list" where
  \<comment> \<open>\<^verbatim>\<open>obj[k] = v\<close>; assigning a string to \<^verbatim>\<open>__proto__\<close> changes nothing\<close>
  "js_set obj k v = (if k = ''__proto__'' then obj else AList.update k v obj)"





subsection \<open>Aliases\<close>

definition handleAlias :: "env \<Rightarrow> string \<Rightarrow> string \<Rightarrow> state \<Rightarrow> (exn + unit) \<times> state" where
  "handleAlias env alias version s =
     (if alias = [] then
        (Inr (), emit (LogError ''Usage: zvm alias <name> <version> OR zvm alias --unset <name>'') s)
      else case getAliases (cur s) of
        Inl e \<Rightarrow> (Inl e, s)
      | Inr aliases \<Rightarrow>
          if version = ''--unset'' then
            (if truthy (js_get aliases alias) then
               (Inr (), emit (LogSuccess (''Unset alias '' @ quoted alias @ ''.''))
                          (emit (WriteAliases (AList.delete alias aliases)) s))
             else (Inr (), emit (LogError (''Alias '' @ quoted alias @ '' not found.'')) s))
          else if version = [] then
            (Inr (), emit (LogError ''Please specify a version for the alias.'') s)
          else
            (case resolveVersion (cur s) version of
               Inl e \<Rightarrow> (Inl e, s)
             | Inr None \<Rightarrow>
                 (Inr (), emit (LogError (''Version '' @ quoted version @ '' not found.'')) s)
             | Inr (Some dirToAlias) \<Rightarrow>
                 if dirToAlias = [] then
                   (Inr (), emit (LogError (''Version '' @ quoted version @ '' not found.'')) s)
                 else
                   (Inr (), emit (LogSuccess (quoted alias @ '' is now an alias for ''
                                              @ dirToAlias @ ''.''))
                              (emit (WriteAliases (js_set aliases alias dirToAlias)) s))))"

subsection \<open>Installing\<close>



fun tar_write_all :: "string \<Rightarrow> (string \<times> string) list \<Rightarrow> state \<Rightarrow> state" where
  "tar_write_all d [] s = s"
| "tar_write_all d ((p, c) # ws) s = tar_write_all d ws (emit (TarWrite d p c) s)"


definition fs_unlink_tmp :: "string \<Rightarrow> state \<Rightarrow> (exn + unit) \<times> state" where
  \<comment> \<open>\<^verbatim>\<open>fs.unlink(f)\<close> for a file of the temporary directory\<close>
  "fs_unlink_tmp f s =
     (case map_of (tmp (cur s)) f of
        None \<Rightarrow> (Inl (ENOENT (''unlink '' @ f)), s)
      | Some b \<Rightarrow> (Inr (), emit (UnlinkTmp f) s))"



definition staging :: "string \<Rightarrow> string" where
  \<comment> \<open>\<open>tempInstallPath\<close>: the entry of the final path with the suffix\<close>
  "staging n = n @ ''.tmp''"






subsection \<open>Listing\<close>

definition esc :: "string \<Rightarrow> string" where
  "esc c = [CHR 0x1B] @ c"

definition reset :: string where "reset = esc ''[0m''"
definition green :: string where "green = esc ''[32m''"
definition cyan :: string where "cyan = esc ''[36m''"
definition gray :: string where "gray = esc ''[90m''"

fun reverse_loop ::
  "(string \<times> string) list \<Rightarrow> (string \<times> string list) list \<Rightarrow> exn + (string \<times> string list) list" where
  \<comment> \<open>the \<^verbatim>\<open>reduce\<close> that builds \<open>reverseAliases\<close>; spreading a member of
      \<^verbatim>\<open>Object.prototype\<close> throws a \<^verbatim>\<open>TypeError\<close>\<close>
  "reverse_loop [] acc = Inr acc"
| "reverse_loop ((alias, versionDir) # rest) acc =
     (case map_of acc versionDir of
        Some as \<Rightarrow> reverse_loop rest (AList.update versionDir (as @ [alias]) acc)
      | None \<Rightarrow>
          if versionDir \<in> set object_prototype_props then
            Inl (Exn None ''acc[versionDir] is not iterable'')
          else reverse_loop rest (AList.update versionDir [alias] acc))"

fun list_dirs :: "string option \<Rightarrow> (string \<times> string list) list \<Rightarrow> string list \<Rightarrow> state \<Rightarrow> state" where
  \<comment> \<open>the \<^verbatim>\<open>forEach\<close> over \<open>zigDirs\<close>\<close>
  "list_dirs activeVersionDir reverseAliases [] s = s"
| "list_dirs activeVersionDir reverseAliases (dir # rest) s =
     (let isActive = (activeVersionDir = Some dir);
          aliasText = (case map_of reverseAliases dir of
                         Some as \<Rightarrow> gray @ '' (alias: '' @ join '', '' as @ '')''
                       | None \<Rightarrow> []);
          pre = (if isActive then green @ ''-> '' else ''   '')
      in list_dirs activeVersionDir reverseAliases rest
           (emit (Log (pre @ cyan @ dir @ reset @ aliasText)) s))"

definition list_try :: "env \<Rightarrow> state \<Rightarrow> (exn + unit) \<times> state" where
  \<comment> \<open>the outer \<^verbatim>\<open>try\<close> block of \<open>handleList\<close>\<close>
  "list_try env s =
     (let activeVersionDir =
            (case fs_readlink (cur s) of
               Inr linkTarget \<Rightarrow> Some (basename linkTarget)
             | Inl e \<Rightarrow> None)
      in case getAliases (cur s) of
           Inl e \<Rightarrow> (Inl e, s)
         | Inr aliases \<Rightarrow>
             (case reverse_loop aliases [] of
                Inl e \<Rightarrow> (Inl e, s)
              | Inr reverseAliases \<Rightarrow>
                  (case readdir_root (cur s) of
                     Inl e \<Rightarrow> (Inl e, s)
                   | Inr dirs \<Rightarrow>
                       let zigDirs = filter (prefix ''zig-'') dirs
                       in if length zigDirs = 0 then
                            (Inr (), emit (Log ''  (No versions installed yet)'') s)
                          else (Inr (), list_dirs activeVersionDir reverseAliases zigDirs s))))"

definition handleList :: "env \<Rightarrow> state \<Rightarrow> (exn + unit) \<times> state" where
  "handleList env s =
     (let s1 = emit (LogInfo (''Installed Zig versions in '' @ INSTALL_BASE_DIR env @ '':'')) s
      in case list_try env s1 of
           (Inl e, s2) \<Rightarrow>
             if is_code e ''ENOENT'' then
               (Inr (), emit (Log ''  (No versions installed yet)'') s2)
             else (Inl e, s2)
         | (Inr u, s2) \<Rightarrow> (Inr (), s2))"

subsection \<open>What a run shows\<close>

fun rename_attempts :: "event list \<Rightarrow> exn option list" where
  "rename_attempts [] = []"
| "rename_attempts (Rename old new fault # evs) = fault # rename_attempts evs"
| "rename_attempts (ev # evs) = rename_attempts evs"

fun warnings :: "event list \<Rightarrow> string list" where
  "warnings [] = []"
| "warnings (LogWarn m # evs) = m # warnings evs"
| "warnings (ev # evs) = warnings evs"

fun sleeps :: "event list \<Rightarrow> nat list" where
  "sleeps [] = []"
| "sleeps (Sleep ms # evs) = ms # sleeps evs"
| "sleeps (ev # evs) = sleeps evs"

definition example_env :: env where
  "example_env =
     \<lparr>platform = ''linux'', arch = ''x64'', homedir = ''/home/u'', tmpdir = ''/tmp'',
      now = 1700000000000, zvm_initialized = False,
      mirrors_text = Inr None,
      head = (\<lambda>url. Inr False),
      get = (\<lambda>url. Inl (Exn None ''fetch failed'')),
      rename_fault = (\<lambda>i. None),
      cwd = [],
      version_file = (\<lambda>d. Inl (ENOENT ''open .zig-version''))\<rparr>"

definition EPERM :: exn where
  "EPERM = sys_error ''EPERM'' ''operation not permitted, rename''"

text \<open>The events of the attempts \<open>i\<close> to \<open>j\<close>, of which only the last is not retried.\<close>

definition retry_trace :: "env \<Rightarrow> string \<Rightarrow> string \<Rightarrow> nat \<Rightarrow> nat \<Rightarrow> event list" where
  "retry_trace env old new i j =
     concat (map (\<lambda>k. [Rename old new (rename_fault env k), retry_warning k, Sleep delay]) [i..<j])
     @ [Rename old new (rename_fault env j)]"

definition flaky_rename :: "nat \<Rightarrow> env" where
  \<comment> \<open>the first \<open>n\<close> attempts to rename fail with a permission error\<close>
  "flaky_rename n = example_env\<lparr>rename_fault := (\<lambda>i. if i < n then Some EPERM else None)\<rparr>"

definition staged_world :: world where
  \<comment> \<open>a staging directory, extracted, and no final directory yet\<close>
  "staged_world =
     \<lparr>alias_file = NoFile,
      versions = Some [(''zig-linux-x86_64-0.11.0.tmp'', [(''zig'', ''ELF''), (''LICENSE'', ''MIT'')])],
      shims = NoShimsDir, tmp = []\<rparr>"

definition extends :: "state \<Rightarrow> state \<Rightarrow> bool" where
  "extends s s' = prefix (hist s) (hist s')"

text \<open>
  The URLs in the order of the two loops, and the URLs that can be used: the probe is
  answered with success, so is the retrieval, and the body arrives whole.
\<close>

definition candidate_urls :: "string list \<Rightarrow> string list \<Rightarrow> string list" where
  "candidate_urls baseUrls filenames =
     concat (map (\<lambda>baseUrl. map (\<lambda>filename. baseUrl @ ''/'' @ filename) filenames) baseUrls)"

definition usable :: "env \<Rightarrow> string \<Rightarrow> bool" where
  "usable env url =
     (case head env url of
        Inl e \<Rightarrow> False
      | Inr headOk \<Rightarrow>
          headOk \<and> (case get env url of
                      Inl e \<Rightarrow> False
                    | Inr r \<Rightarrow> ok r \<and> body_error r = None))"

fun probes :: "event list \<Rightarrow> string list" where
  "probes [] = []"
| "probes (Fetch m url # evs) = (if m = ''HEAD'' then url # probes evs else probes evs)"
| "probes (ev # evs) = probes evs"

fun retrievals :: "event list \<Rightarrow> string list" where
  "retrievals [] = []"
| "retrievals (Fetch m url # evs) = (if m = ''GET'' then url # retrievals evs else retrievals evs)"
| "retrievals (ev # evs) = retrievals evs"

definition probed :: "env \<Rightarrow> string list \<Rightarrow> string list" where
  "probed env urls =
     takeWhile (\<lambda>u. \<not> usable env u) urls
     @ (case find (usable env) urls of None \<Rightarrow> [] | Some u \<Rightarrow> [u])"

definition download_ok :: "env \<Rightarrow> string \<Rightarrow> state \<Rightarrow> state \<Rightarrow> bool" where
  \<comment> \<open>the file at the temporary path is the body of \<open>url\<close>, the last retrieval\<close>
  "download_ok env url s s' =
     (retrievals (since s s') \<noteq> [] \<and> last (retrievals (since s s')) = url
      \<and> (case get env url of
            Inl e \<Rightarrow> False
          | Inr r \<Rightarrow> map_of (tmp (cur s')) (tempFile env) = Some (body r)))"

definition M1 :: string where "M1 = ''https://m1.example/zig''"
definition M2 :: string where "M2 = ''https://m2.example/zig''"
definition C :: string where "C = ''https://ziglang.org/download/0.11.0''"
definition F1 :: string where "F1 = ''zig-linux-x86_64-0.11.0.tar.xz''"
definition F2 :: string where "F2 = ''zig-x86_64-linux-0.11.0.tar.xz''"

definition zig_archive :: blob where
  "zig_archive =
     Blob (Inr (''zig-linux-x86_64-0.11.0/'' @ [newline] @ ''zig-linux-x86_64-0.11.0/zig''
                @ [newline] @ ''zig-linux-x86_64-0.11.0/LICENSE'' @ [newline]))
          [(''zig'', ''ELF''), (''LICENSE'', ''MIT'')] None"

definition second_mirror_env :: env where
  \<comment> \<open>only the second filename on the second mirror exists\<close>
  "second_mirror_env =
     example_env\<lparr>head := (\<lambda>url. Inr (url = M2 @ ''/'' @ F2)),
                 get := (\<lambda>url. Inr (Response True zig_archive None))\<rparr>"

definition active_dir :: "world \<Rightarrow> string option" where
  \<comment> \<open>the state of the activation machine: the target of the Active Link, if there is one\<close>
  "active_dir w = (case shims w of Shims (Some (target, ty)) \<Rightarrow> Some target | _ \<Rightarrow> None)"

fun link_changes :: "event list \<Rightarrow> event list" where
  "link_changes [] = []"
| "link_changes (UnlinkLink # evs) = UnlinkLink # link_changes evs"
| "link_changes (Symlink target ty # evs) = Symlink target ty # link_changes evs"
| "link_changes (ev # evs) = link_changes evs"

definition installed_world :: world where
  \<comment> \<open>after \<^verbatim>\<open>zvm install 0.11.0\<close> on a new machine, before any \<^verbatim>\<open>zvm init\<close>\<close>
  "installed_world =
     \<lparr>alias_file = NoFile,
      versions = Some [(''zig-linux-x86_64-0.11.0'', [(''zig'', ''ELF''), (''LICENSE'', ''MIT'')])],
      shims = NoShimsDir, tmp = []\<rparr>"

definition switching_state :: state where
  \<comment> \<open>version 0.11.0 installed, the Active Link on another version\<close>
  "switching_state =
     start (installed_world\<lparr>shims := Shims (Some (''/home/u/.zvm/versions/zig-linux-x86_64-0.10.1'', ''dir''))\<rparr>)"

text \<open>The events that change the disk; the others leave every world as it is.\<close>

fun changes_disk :: "event \<Rightarrow> bool" where
  "changes_disk (Log m) = False"
| "changes_disk (LogInfo m) = False"
| "changes_disk (LogSuccess m) = False"
| "changes_disk (LogError m) = False"
| "changes_disk (LogWarn m) = False"
| "changes_disk (Fetch m url) = False"
| "changes_disk (TarList f) = False"
| "changes_disk (Sleep ms) = False"
| "changes_disk (Rename old new (Some e)) = False"
| "changes_disk ev = True"

definition disk_changes :: "event list \<Rightarrow> event list" where
  "disk_changes evs = filter changes_disk evs"



text \<open>
  What an install may do to the installation root, step by step. The history of a run
  holds every event with the world it left behind, so a run that stops at any point
  leaves the disk in one of these worlds.
\<close>

definition dir_of :: "world \<Rightarrow> string \<Rightarrow> dir option" where
  \<comment> \<open>the files below an entry of the installation root; \<open>None\<close> when there is no such entry\<close>
  "dir_of w n = map_of (entries w) n"

definition others :: "string \<Rightarrow> world \<Rightarrow> (string \<times> dir) list" where
  \<comment> \<open>the installation root without the staging directory of \<open>final\<close>\<close>
  "others final w = filter (\<lambda>(k, d). k \<noteq> staging final) (entries w)"

definition holds_payload :: "(string \<times> string) list \<Rightarrow> dir \<Rightarrow> bool" where
  \<comment> \<open>every file that the extraction writes is there, with the content written last\<close>
  "holds_payload ws d = (\<forall>(p, c) \<in> set ws. map_of d p = map_of (rev ws) p)"

definition commit_ok :: "string \<Rightarrow> string \<Rightarrow> world \<Rightarrow> bool" where
  \<comment> \<open>\<open>final\<close> does not exist, and its staging directory holds all that the archive \<open>f\<close>
      extracts to, the extraction having succeeded\<close>
  "commit_ok f final w =
     (\<not> entry_exists w final
      \<and> (case map_of (tmp w) f of
            None \<Rightarrow> False
          | Some b \<Rightarrow>
              tar_fail b = None
              \<and> (case dir_of w (staging final) of
                    None \<Rightarrow> False
                  | Some d \<Rightarrow> holds_payload (tar_writes b) d)))"

definition step_ok :: "string \<Rightarrow> string \<Rightarrow> world \<Rightarrow> event \<Rightarrow> world \<Rightarrow> bool" where
  \<comment> \<open>one step of an install from \<open>w\<close> to \<open>w'\<close>: the staging directory of \<open>final\<close> is
      created and written only while \<open>final\<close> does not exist, and nothing else in the
      installation root changes; a successful rename is the commit of \<open>final\<close>; a failed
      rename changes nothing; no directory is removed; every other step leaves the
      installation root as it is\<close>
  "step_ok f final w ev w' =
     (case ev of
        Mkdir n \<Rightarrow>
          n = staging final \<and> \<not> entry_exists w final \<and> others final w' = others final w
      | TarWrite n p c \<Rightarrow>
          n = staging final \<and> \<not> entry_exists w final \<and> others final w' = others final w
      | Rename old new fault \<Rightarrow>
          (case fault of
             None \<Rightarrow>
               old = staging final \<and> new = final \<and> commit_ok f final w
               \<and> dir_of w' final = dir_of w (staging final)
           | Some e \<Rightarrow> w' = w)
      | Rm n \<Rightarrow> False
      | _ \<Rightarrow> versions w' = versions w)"

fun atomic_run :: "string \<Rightarrow> string \<Rightarrow> world \<Rightarrow> (event \<times> world) list \<Rightarrow> bool" where
  "atomic_run f final w [] = True"
| "atomic_run f final w ((ev, w') # h) = (step_ok f final w ev w' \<and> atomic_run f final w' h)"

definition new_hist :: "state \<Rightarrow> state \<Rightarrow> (event \<times> world) list" where
  \<comment> \<open>the part of the history of \<open>s'\<close> that came after \<open>s\<close>\<close>
  "new_hist s s' = drop (length (hist s)) (hist s')"

fun touches_versions :: "event \<Rightarrow> bool" where
  "touches_versions (Mkdir n) = True"
| "touches_versions (TarWrite n p c) = True"
| "touches_versions (Rename old new None) = True"
| "touches_versions (Rm n) = True"
| "touches_versions ev = False"

definition last_world :: "world \<Rightarrow> (event \<times> world) list \<Rightarrow> world" where
  "last_world w h = (if h = [] then w else snd (last h))"

definition run_ok :: "string \<Rightarrow> string \<Rightarrow> state \<Rightarrow> state \<Rightarrow> bool" where
  \<comment> \<open>from \<open>s0\<close> to \<open>s\<close> every step was \<open>step_ok\<close>, and the worlds of the history are
      the worlds the run went through\<close>
  "run_ok f final s0 s =
     (extends s0 s \<and> atomic_run f final (cur s0) (new_hist s0 s)
      \<and> cur s = last_world (cur s0) (new_hist s0 s))"




definition version_changes :: "event list \<Rightarrow> event list" where
  "version_changes evs = filter touches_versions evs"

text \<open>
  The pattern as a set of strings, written without the matcher: \<open>MAJOR.MINOR.PATCH\<close>,
  three non-empty runs of digits between dots, with or without a suffix \<^verbatim>\<open>-dev.N+hash\<close>.
\<close>

definition digits :: "string \<Rightarrow> bool" where
  "digits s = (s \<noteq> [] \<and> list_all is_digit s)"

definition hex_digits :: "string \<Rightarrow> bool" where
  "hex_digits s = (s \<noteq> [] \<and> list_all is_hex s)"

definition is_mmp :: "string \<Rightarrow> bool" where
  "is_mmp s =
     (case split_on CHR ''.'' s of
        [a, b, c] \<Rightarrow> digits a \<and> digits b \<and> digits c
      | _ \<Rightarrow> False)"

definition is_dev_suffix :: "string \<Rightarrow> bool" where
  "is_dev_suffix s =
     (prefix ''-dev.'' s
      \<and> (let r = drop 5 s; n = takeWhile (\<lambda>c. c \<noteq> CHR ''+'') r
         in digits n \<and> length n < length r \<and> hex_digits (drop (length n + 1) r)))"

definition matches_version :: "string \<Rightarrow> bool" where
  "matches_version s =
     list_ex (\<lambda>k. is_mmp (take k s) \<and> (k = length s \<or> is_dev_suffix (drop k s)))
       [0..<Suc (length s)]"

section \<open>Properties\<close>

subsection \<open>Resolution\<close>

lemma entry_exists_versions:
  "entry_exists w d \<Longrightarrow> \<exists>vs. versions w = Some vs \<and> d \<in> set (map fst vs)"
  by (cases "versions w") (auto simp: entry_exists_def entries_def)

text \<open>
  Claim C7, as amended. The alias store is consulted first, so the name of an installed
  directory that is also an alias (or the name of a member of \<^verbatim>\<open>Object.prototype\<close>, which
  \<^verbatim>\<open>aliases[d]\<close> finds) resolves to what the alias says. For every other name \<open>d\<close> of an
  entry of the installation root, with a readable alias store, \<open>resolveVersion\<close> returns
  \<open>d\<close>, whatever other entries contain \<open>d\<close> as a substring.
\<close>

theorem resolve_exact_name:
  assumes al: "getAliases w = Inr aliases"
    and ex: "entry_exists w d"
    and ne: "d \<noteq> []"
    and na: "\<not> truthy (js_get aliases d)"
  shows "resolveVersion w d = Inr (Some d)"
proof -
  from ex obtain vs where vs: "versions w = Some vs" and d: "d \<in> set (map fst vs)"
    using entry_exists_versions by blast
  let ?m = "filter (\<lambda>dir. str_includes dir d) (map fst vs)"
  have in_m: "d \<in> set ?m" using d by (auto simp: str_includes_def)
  have t: "js_or (js_get aliases d) d = Str d" using na by (simp add: js_or_def)
  show ?thesis
  proof (cases "length ?m = 1")
    case True
    then obtain x where "?m = [x]" by (cases ?m) auto
    with in_m have "hd ?m = d" by auto
    with True show ?thesis using al vs ne t
      by (simp add: resolveVersion_def readdir_root_def to_string_def pick_match_def)
  next
    case False
    then show ?thesis using al vs ne t in_m
      by (simp add: resolveVersion_def readdir_root_def to_string_def pick_match_def)
  qed
qed

text \<open>
  An installed version beside the staging directory that an interrupted install of the
  same version left behind: both names contain the name asked for.
\<close>

theorem resolve_exact_name_witness:
  "getAliases \<lparr>alias_file = JsonObject [(''stable'', ''zig-linux-x86_64-0.11.0'')],
       versions = Some [(''zig-linux-x86_64-0.11.0.tmp'', []), (''zig-linux-x86_64-0.11.0'', [])],
       shims = NoShimsDir, tmp = []\<rparr> = Inr [(''stable'', ''zig-linux-x86_64-0.11.0'')]
   \<and> entry_exists \<lparr>alias_file = JsonObject [(''stable'', ''zig-linux-x86_64-0.11.0'')],
       versions = Some [(''zig-linux-x86_64-0.11.0.tmp'', []), (''zig-linux-x86_64-0.11.0'', [])],
       shims = NoShimsDir, tmp = []\<rparr> ''zig-linux-x86_64-0.11.0''
   \<and> str_includes ''zig-linux-x86_64-0.11.0.tmp'' ''zig-linux-x86_64-0.11.0''
   \<and> \<not> truthy (js_get [(''stable'', ''zig-linux-x86_64-0.11.0'')] ''zig-linux-x86_64-0.11.0'')
   \<and> resolveVersion \<lparr>alias_file = JsonObject [(''stable'', ''zig-linux-x86_64-0.11.0'')],
       versions = Some [(''zig-linux-x86_64-0.11.0.tmp'', []), (''zig-linux-x86_64-0.11.0'', [])],
       shims = NoShimsDir, tmp = []\<rparr> ''zig-linux-x86_64-0.11.0''
     = Inr (Some ''zig-linux-x86_64-0.11.0'')"
proof -
  let ?w = "\<lparr>alias_file = JsonObject [(''stable'', ''zig-linux-x86_64-0.11.0'')],
       versions = Some [(''zig-linux-x86_64-0.11.0.tmp'', []), (''zig-linux-x86_64-0.11.0'', [])],
       shims = NoShimsDir, tmp = []\<rparr>"
  have a: "getAliases ?w = Inr [(''stable'', ''zig-linux-x86_64-0.11.0'')]"
    by (simp add: getAliases_def read_aliases_file_def)
  have b: "entry_exists ?w ''zig-linux-x86_64-0.11.0''"
    by (simp add: entry_exists_def entries_def)
  have c: "\<not> truthy (js_get [(''stable'', ''zig-linux-x86_64-0.11.0'')] ''zig-linux-x86_64-0.11.0'')"
    by (simp add: truthy_def js_get_def object_prototype_props_def)
  have d: "str_includes ''zig-linux-x86_64-0.11.0.tmp'' ''zig-linux-x86_64-0.11.0''"
    by (simp add: str_includes_def)
  from resolve_exact_name [OF a b _ c] a b c d show ?thesis by simp
qed

text \<open>
  Claim C7 as stated fails: after \<^verbatim>\<open>zvm alias zig-linux-x86_64-0.11.0 0.12.0\<close> the name of
  the installed directory of 0.11.0 resolves to the directory of 0.12.0.
\<close>

theorem resolve_alias_shadows_counterexample:
  "entry_exists \<lparr>alias_file = JsonObject [(''zig-linux-x86_64-0.11.0'', ''zig-linux-x86_64-0.12.0'')],
       versions = Some [(''zig-linux-x86_64-0.11.0'', []), (''zig-linux-x86_64-0.12.0'', [])],
       shims = NoShimsDir, tmp = []\<rparr> ''zig-linux-x86_64-0.11.0''
   \<and> resolveVersion \<lparr>alias_file = JsonObject [(''zig-linux-x86_64-0.11.0'', ''zig-linux-x86_64-0.12.0'')],
       versions = Some [(''zig-linux-x86_64-0.11.0'', []), (''zig-linux-x86_64-0.12.0'', [])],
       shims = NoShimsDir, tmp = []\<rparr> ''zig-linux-x86_64-0.11.0''
     = Inr (Some ''zig-linux-x86_64-0.12.0'')"
  by (simp add: entry_exists_def entries_def resolveVersion_def getAliases_def
      read_aliases_file_def js_or_def js_get_def truthy_def to_string_def readdir_root_def
      str_includes_def pick_match_def Let_def)




subsection \<open>Histories\<close>

lemma events_emit [simp]: "events (emit ev s) = events s @ [ev]"
  by (simp add: events_def emit_def Let_def)

lemma cur_emit [simp]: "cur (emit ev s) = apply_event ev (cur s)"
  by (simp add: emit_def Let_def)

lemma since_events: "events s' = events s @ evs \<Longrightarrow> since s s' = evs"
  by (simp add: since_def events_def)

lemma extends_refl [simp]: "extends s s"
  by (simp add: extends_def)

lemma extends_trans: "extends s s1 \<Longrightarrow> extends s1 s2 \<Longrightarrow> extends s s2"
  by (auto simp: extends_def)

lemma extends_emit [simp]: "extends s s' \<Longrightarrow> extends s (emit ev s')"
  by (auto simp: extends_def emit_def Let_def prefix_def)

lemma since_refl [simp]: "since s s = []"
  by (simp add: since_def events_def)

lemma since_emit [simp]: "extends s s' \<Longrightarrow> since s (emit ev s') = since s s' @ [ev]"
  by (auto simp: extends_def since_def events_def emit_def Let_def prefix_def)

lemma since_trans: "extends s s1 \<Longrightarrow> extends s1 s2 \<Longrightarrow> since s s2 = since s s1 @ since s1 s2"
  by (auto simp: extends_def since_def events_def prefix_def)

lemma events_since: "extends s s' \<Longrightarrow> events s' = events s @ since s s'"
  by (auto simp: extends_def since_def events_def prefix_def)

lemma apply_event_silent [simp]: "\<not> changes_disk ev \<Longrightarrow> apply_event ev w = w"
  by (cases ev rule: changes_disk.cases) simp_all

lemma alias_file_apply_event [simp]:
  "alias_file (apply_event ev w) = (case ev of WriteAliases m \<Rightarrow> JsonObject m | _ \<Rightarrow> alias_file w)"
  by (cases ev) (simp_all split: option.splits shims.splits prod.splits)

lemma shims_apply_event [simp]:
  "shims (apply_event ev w) =
     (case ev of
        UnlinkLink \<Rightarrow> (case shims w of NoShimsDir \<Rightarrow> NoShimsDir | Shims l \<Rightarrow> Shims None)
      | Symlink target ty \<Rightarrow>
          (case shims w of NoShimsDir \<Rightarrow> NoShimsDir | Shims l \<Rightarrow> Shims (Some (target, ty)))
      | _ \<Rightarrow> shims w)"
  by (cases ev) (simp_all split: option.splits shims.splits prod.splits)

lemma tmp_apply_event [simp]:
  "tmp (apply_event ev w) =
     (case ev of
        WriteTmp f b \<Rightarrow> AList.update f b (tmp w)
      | UnlinkTmp f \<Rightarrow> AList.delete f (tmp w)
      | _ \<Rightarrow> tmp w)"
  by (cases ev) (simp_all split: option.splits shims.splits prod.splits)

lemma versions_apply_event [simp]:
  "versions (apply_event ev w) =
     (case ev of
        Mkdir n \<Rightarrow> (if entry_exists w n then versions w else Some (entries w @ [(n, [])]))
      | TarWrite n p c \<Rightarrow> map_option (AList.map_entry n (AList.update p c)) (versions w)
      | Rename old new fault \<Rightarrow>
          (case fault of
             None \<Rightarrow> map_option (rename_entry old new) (versions w)
           | Some e \<Rightarrow> versions w)
      | Rm n \<Rightarrow> map_option (AList.delete n) (versions w)
      | _ \<Rightarrow> versions w)"
  by (cases ev) (simp_all split: option.splits shims.splits prod.splits)

declare apply_event.simps [simp del]


subsection \<open>Renaming with retries\<close>

lemma apply_retry_warning [simp]: "apply_event (retry_warning i) w = w"
  by (simp add: retry_warning_def)

lemma retry_trace_step:
  "i < j \<Longrightarrow> retry_trace env old new i j =
     [Rename old new (rename_fault env i), retry_warning i, Sleep delay] @ retry_trace env old new (Suc i) j"
  by (simp add: retry_trace_def upt_conv_Cons)

lemma retry_trace_last: "retry_trace env old new j j = [Rename old new (rename_fault env j)]"
  by (simp add: retry_trace_def)

lemma rename_result_fault:
  "entry_exists w old \<Longrightarrow> \<not> entry_exists w new \<Longrightarrow>
   rename_result env i old new w = rename_fault env i"
  by (auto simp: rename_result_def entry_exists_def map_of_eq_None_iff [symmetric]
      simp del: map_of_eq_None_iff split: option.splits list.splits)

lemma rename_loop_run:
  assumes "entry_exists (cur s) old" "\<not> entry_exists (cur s) new"
    and "i \<le> j" "j < retries"
    and "\<forall>k. i \<le> k \<and> k < j \<longrightarrow> (\<exists>e. rename_fault env k = Some e \<and> is_code e ''EPERM'')"
    and "\<forall>e. rename_fault env j = Some e \<longrightarrow> \<not> is_code e ''EPERM'' \<or> j = retries - 1"
  shows "\<exists>s'. renameWithRetry_loop env old new i s =
           ((case rename_fault env j of None \<Rightarrow> Inr () | Some e \<Rightarrow> Inl e), s')
         \<and> events s' = events s @ retry_trace env old new i j
         \<and> cur s' = apply_event (Rename old new (rename_fault env j)) (cur s)"
  using assms
proof (induction "j - i" arbitrary: i s)
  case 0
  then have ij: "i = j" by simp
  from 0 have r: "rename_result env j old new (cur s) = rename_fault env j"
    by (simp add: rename_result_fault)
  show ?case
  proof (cases "rename_fault env j")
    case None
    with r ij 0 show ?thesis
      by (subst renameWithRetry_loop.simps) (simp add: fs_rename_def Let_def retry_trace_last)
  next
    case (Some e)
    with 0 have "\<not> is_code e ''EPERM'' \<or> j = retries - 1" by simp
    with Some r ij 0 show ?thesis
      by (subst renameWithRetry_loop.simps) (auto simp: fs_rename_def Let_def retry_trace_last)
  qed
next
  case (Suc n)
  then have ij: "i < j" by simp
  with Suc obtain e where e: "rename_fault env i = Some e" "is_code e ''EPERM''" by auto
  from Suc have r: "rename_result env i old new (cur s) = Some e"
    by (simp add: rename_result_fault e)
  let ?s1 = "emit (Sleep delay) (emit (retry_warning i) (emit (Rename old new (Some e)) s))"
  have c1: "cur ?s1 = cur s" by simp
  have "\<exists>s'. renameWithRetry_loop env old new (Suc i) ?s1 =
           ((case rename_fault env j of None \<Rightarrow> Inr () | Some e \<Rightarrow> Inl e), s')
         \<and> events s' = events ?s1 @ retry_trace env old new (Suc i) j
         \<and> cur s' = apply_event (Rename old new (rename_fault env j)) (cur ?s1)"
  proof (rule Suc.hyps(1))
    show "n = j - Suc i" using Suc.hyps(2) by simp
    show "entry_exists (cur ?s1) old" "\<not> entry_exists (cur ?s1) new"
      using Suc.prems(1,2) c1 by simp_all
    show "Suc i \<le> j" using ij by simp
    show "j < retries" by (rule Suc.prems(4))
    show "\<forall>k. Suc i \<le> k \<and> k < j \<longrightarrow> (\<exists>e. rename_fault env k = Some e \<and> is_code e ''EPERM'')"
      using Suc.prems(5) by auto
    show "\<forall>e. rename_fault env j = Some e \<longrightarrow> \<not> is_code e ''EPERM'' \<or> j = retries - 1"
      by (rule Suc.prems(6))
  qed
  then obtain s' where s': "renameWithRetry_loop env old new (Suc i) ?s1 =
           ((case rename_fault env j of None \<Rightarrow> Inr () | Some e \<Rightarrow> Inl e), s')"
      "events s' = events ?s1 @ retry_trace env old new (Suc i) j"
      "cur s' = apply_event (Rename old new (rename_fault env j)) (cur ?s1)" by blast
  have lt: "i < retries" "i < retries - 1" using ij Suc.prems(4) by simp_all
  have step: "renameWithRetry_loop env old new i s = renameWithRetry_loop env old new (Suc i) ?s1"
    using lt r e
    by (subst renameWithRetry_loop.simps) (simp add: fs_rename_def Let_def)
  show ?case using s' step ij e by (simp add: retry_trace_step)
qed

lemma retry_trace_counts:
  "i \<le> j \<Longrightarrow> length (rename_attempts (retry_trace env old new i j)) = j - i + 1
     \<and> length (warnings (retry_trace env old new i j)) = j - i
     \<and> sleeps (retry_trace env old new i j) = replicate (j - i) delay"
proof (induction "j - i" arbitrary: i)
  case 0
  then show ?case by (simp add: retry_trace_last)
next
  case (Suc n)
  then have "i < j" "n = j - Suc i" "Suc i \<le> j" by simp_all
  with Suc.hyps(1) [of "Suc i"] Suc.hyps(2) show ?case
    by (simp add: retry_trace_step retry_warning_def Suc_diff_Suc replicate_Suc [symmetric]
        del: replicate_Suc)
qed

lemma rename_entry_exists:
  assumes "old \<in> set (map fst vs)" "new \<notin> set (map fst vs)"
  shows "new \<in> set (map fst (rename_entry old new vs))"
    and "old \<notin> set (map fst (rename_entry old new vs))"
proof -
  have f: "filter (\<lambda>(k, d). k \<noteq> new) vs = vs" using assms(2) by (force simp: filter_id_conv)
  from assms have neq: "old \<noteq> new" by auto
  show "new \<in> set (map fst (rename_entry old new vs))"
    using assms(1) by (force simp: rename_entry_def f)
  show "old \<notin> set (map fst (rename_entry old new vs))"
    using neq by (auto simp: rename_entry_def f split: if_splits)
qed

text \<open>
  Claim C3. The staging entry exists and the final entry does not, as where
  \<open>handleInstall\<close> calls the function. Let the attempts before the \<open>j\<close>-th (counted from
  0, \<open>j < 5\<close>) fail with \<^verbatim>\<open>EPERM\<close>. If attempt \<open>j\<close> succeeds, the function returns after
  \<open>j + 1\<close> attempts, \<open>j\<close> warnings and \<open>j\<close> sleeps of 300 ms, and the entry has its final
  name. If attempt \<open>j\<close> fails with another error, or is the fifth attempt (\<open>j = 4\<close>), its
  error is thrown after \<open>j + 1\<close> attempts and the disk is unchanged. Every behaviour of
  \<^verbatim>\<open>fs.rename\<close> falls under one of the two cases for some \<open>j\<close>, so there are never more
  than five attempts: five consecutive failures are fatal, and a sixth is never tried.
\<close>

theorem rename_retry:
  assumes ex: "entry_exists (cur s) old" and nx: "\<not> entry_exists (cur s) new"
    and j: "j < 5"
    and perm: "\<forall>i<j. \<exists>e. rename_fault env i = Some e \<and> is_code e ''EPERM''"
  shows
   "(rename_fault env j = None \<longrightarrow>
       (\<exists>s'. renameWithRetry env old new s = (Inr (), s')
            \<and> length (rename_attempts (since s s')) = j + 1
            \<and> length (warnings (since s s')) = j
            \<and> sleeps (since s s') = replicate j 300
            \<and> entry_exists (cur s') new \<and> \<not> entry_exists (cur s') old))
    \<and> (\<forall>e. rename_fault env j = Some e \<and> (\<not> is_code e ''EPERM'' \<or> j = 4) \<longrightarrow>
       (\<exists>s'. renameWithRetry env old new s = (Inl e, s')
            \<and> length (rename_attempts (since s s')) = j + 1
            \<and> length (warnings (since s s')) = j
            \<and> sleeps (since s s') = replicate j 300
            \<and> cur s' = cur s))"
proof (intro conjI allI impI)
  assume ok: "rename_fault env j = None"
  from rename_loop_run [of s old new 0 j env] ex nx j perm ok
  obtain s' where s': "renameWithRetry_loop env old new 0 s = (Inr (), s')"
      "events s' = events s @ retry_trace env old new 0 j"
      "cur s' = apply_event (Rename old new None) (cur s)"
    by (auto simp: retries_def)
  from ex obtain vs where vs: "versions (cur s) = Some vs" "old \<in> set (map fst vs)"
    using entry_exists_versions by blast
  with nx have "new \<notin> set (map fst vs)" by (simp add: entry_exists_def entries_def)
  with vs s'(3) have "entry_exists (cur s') new \<and> \<not> entry_exists (cur s') old"
    using rename_entry_exists [of old vs new]
    by (simp add: entry_exists_def entries_def)
  with s' show "\<exists>s'. renameWithRetry env old new s = (Inr (), s')
            \<and> length (rename_attempts (since s s')) = j + 1
            \<and> length (warnings (since s s')) = j
            \<and> sleeps (since s s') = replicate j 300
            \<and> entry_exists (cur s') new \<and> \<not> entry_exists (cur s') old"
    using retry_trace_counts [of 0 j env old new]
    by (simp add: renameWithRetry_def since_events delay_def)
next
  fix e
  assume bad: "rename_fault env j = Some e \<and> (\<not> is_code e ''EPERM'' \<or> j = 4)"
  from rename_loop_run [of s old new 0 j env] ex nx j perm bad
  obtain s' where s': "renameWithRetry_loop env old new 0 s = (Inl e, s')"
      "events s' = events s @ retry_trace env old new 0 j"
      "cur s' = apply_event (Rename old new (Some e)) (cur s)"
    by (auto simp: retries_def)
  then show "\<exists>s'. renameWithRetry env old new s = (Inl e, s')
            \<and> length (rename_attempts (since s s')) = j + 1
            \<and> length (warnings (since s s')) = j
            \<and> sleeps (since s s') = replicate j 300
            \<and> cur s' = cur s"
    using retry_trace_counts [of 0 j env old new]
    by (simp add: renameWithRetry_def since_events delay_def)
qed


text \<open>
  Four permission errors and then a success: four warnings, five attempts, success.
  Six permission errors in a row: the fifth is thrown.
\<close>

theorem rename_retry_witness:
  "(\<exists>s'. renameWithRetry (flaky_rename 4) ''zig-linux-x86_64-0.11.0.tmp''
            ''zig-linux-x86_64-0.11.0'' (start staged_world) = (Inr (), s')
         \<and> length (rename_attempts (since (start staged_world) s')) = 5
         \<and> length (warnings (since (start staged_world) s')) = 4
         \<and> sleeps (since (start staged_world) s') = [300, 300, 300, 300]
         \<and> entry_exists (cur s') ''zig-linux-x86_64-0.11.0''
         \<and> \<not> entry_exists (cur s') ''zig-linux-x86_64-0.11.0.tmp'')
   \<and> (\<exists>s'. renameWithRetry (flaky_rename 6) ''zig-linux-x86_64-0.11.0.tmp''
            ''zig-linux-x86_64-0.11.0'' (start staged_world) = (Inl EPERM, s')
         \<and> length (rename_attempts (since (start staged_world) s')) = 5
         \<and> cur s' = staged_world)"
proof -
  let ?old = "''zig-linux-x86_64-0.11.0.tmp''" and ?new = "''zig-linux-x86_64-0.11.0''"
  have ex: "entry_exists (cur (start staged_world)) ?old"
    and nx: "\<not> entry_exists (cur (start staged_world)) ?new"
    by (simp_all add: start_def staged_world_def entry_exists_def entries_def)
  have perm: "is_code EPERM ''EPERM''"
    by (simp add: EPERM_def sys_error_def is_code_def)
  have p4: "\<forall>i<4. \<exists>e. rename_fault (flaky_rename 4) i = Some e \<and> is_code e ''EPERM''"
    and p6: "\<forall>i<4. \<exists>e. rename_fault (flaky_rename 6) i = Some e \<and> is_code e ''EPERM''"
    using perm by (simp_all add: flaky_rename_def)
  have f4: "rename_fault (flaky_rename 4) 4 = None"
    and f6: "rename_fault (flaky_rename 6) 4 = Some EPERM"
    by (simp_all add: flaky_rename_def)
  have "(4::nat) = Suc (Suc (Suc (Suc 0)))" by simp
  then have r4: "replicate 4 x = [x, x, x, x]" for x :: nat
    by (simp only: replicate.simps)
  from rename_retry [OF ex nx _ p4] f4
  have a: "\<exists>s'. renameWithRetry (flaky_rename 4) ?old ?new (start staged_world) = (Inr (), s')
         \<and> length (rename_attempts (since (start staged_world) s')) = 5
         \<and> length (warnings (since (start staged_world) s')) = 4
         \<and> sleeps (since (start staged_world) s') = [300, 300, 300, 300]
         \<and> entry_exists (cur s') ?new \<and> \<not> entry_exists (cur s') ?old"
    by (simp add: r4)
  from rename_retry [OF ex nx _ p6] f6
  have b: "\<exists>s'. renameWithRetry (flaky_rename 6) ?old ?new (start staged_world) = (Inl EPERM, s')
         \<and> length (rename_attempts (since (start staged_world) s')) = 5
         \<and> cur s' = staged_world"
    by (auto simp: start_def)
  from a b show ?thesis by blast
qed

subsection \<open>Downloading\<close>

lemma probes_append [simp]: "probes (xs @ ys) = probes xs @ probes ys"
  by (induction xs rule: probes.induct) auto

lemma retrievals_append [simp]: "retrievals (xs @ ys) = retrievals xs @ retrievals ys"
  by (induction xs rule: retrievals.induct) auto

lemma probed_Nil [simp]: "probed env [] = []"
  by (simp add: probed_def)

lemma probed_Cons:
  "probed env (u # us) = (if usable env u then [u] else u # probed env us)"
  by (simp add: probed_def)

lemma probed_append:
  "probed env (us @ vs) = (if find (usable env) us = None then us @ probed env vs else probed env us)"
  by (induction us) (auto simp: probed_Cons)

lemma probed_none: "find (usable env) us = None \<Longrightarrow> probed env us = us"
  by (induction us) (auto simp: probed_Cons split: if_splits)

lemma find_append:
  "find P (xs @ ys) = (case find P xs of None \<Rightarrow> find P ys | Some x \<Rightarrow> Some x)"
  by (induction xs) auto

lemma try_url_fst: "fst (try_url env url s) = usable env url"
  by (simp add: try_url_def usable_def Let_def split: sum.splits option.splits)

lemma try_url_extends [simp]: "extends s0 s \<Longrightarrow> extends s0 (snd (try_url env url s))"
  by (simp add: try_url_def Let_def split: sum.splits option.splits)

lemma try_url_probes:
  "extends s0 s \<Longrightarrow>
   probes (since s0 (snd (try_url env url s))) = probes (since s0 s) @ [url]"
  by (simp add: try_url_def Let_def warn_failed_url_def split: sum.splits option.splits)

lemma try_url_retrievals:
  "extends s0 s \<Longrightarrow> usable env url \<Longrightarrow>
   retrievals (since s0 (snd (try_url env url s))) = retrievals (since s0 s) @ [url]"
  by (simp add: try_url_def usable_def Let_def split: sum.splits option.splits)

lemma try_url_file:
  "usable env url \<Longrightarrow>
   \<exists>r. get env url = Inr r
      \<and> map_of (tmp (cur (snd (try_url env url s)))) (tempFile env) = Some (body r)"
  by (auto simp: try_url_def usable_def Let_def update_conv' split: sum.splits option.splits)

lemma try_filenames_extends [simp]:
  "extends s0 s \<Longrightarrow> extends s0 (snd (try_filenames env b fns s))"
proof (induction fns arbitrary: s)
  case (Cons f fns)
  obtain ret s1 where t: "try_url env (b @ ''/'' @ f) s = (ret, s1)"
    by (cases "try_url env (b @ ''/'' @ f) s")
  with try_url_extends [OF Cons.prems, of env "b @ ''/'' @ f"] have "extends s0 s1" by simp
  with Cons.IH [of s1] t show ?case by (cases ret) simp_all
qed simp

lemma try_filenames_run:
  assumes "extends s0 s"
  shows "probes (since s0 (snd (try_filenames env b fns s)))
           = probes (since s0 s) @ probed env (map (\<lambda>f. b @ ''/'' @ f) fns)
       \<and> (case find (usable env) (map (\<lambda>f. b @ ''/'' @ f) fns) of
            None \<Rightarrow> fst (try_filenames env b fns s) = None
          | Some u \<Rightarrow> fst (try_filenames env b fns s) = Some (tempFile env)
                      \<and> download_ok env u s0 (snd (try_filenames env b fns s)))"
  using assms
proof (induction fns arbitrary: s)
  case Nil
  then show ?case by simp
next
  case (Cons f fns)
  let ?url = "b @ ''/'' @ f"
  obtain ret s1 where t: "try_url env ?url s = (ret, s1)" by (cases "try_url env ?url s")
  with try_url_fst [of env ?url s] have ret: "ret = usable env ?url" by simp
  from t try_url_extends [OF Cons.prems, of env ?url] have e1: "extends s0 s1" by simp
  from t try_url_probes [OF Cons.prems, of env ?url]
  have p1: "probes (since s0 s1) = probes (since s0 s) @ [?url]" by simp
  show ?case
  proof (cases "usable env ?url")
    case True
    from t try_url_retrievals [OF Cons.prems True]
    have "retrievals (since s0 s1) = retrievals (since s0 s) @ [?url]" by simp
    moreover from t try_url_file [OF True, of s]
    have "case get env ?url of Inl e \<Rightarrow> False
           | Inr r \<Rightarrow> map_of (tmp (cur s1)) (tempFile env) = Some (body r)" by auto
    ultimately have "download_ok env ?url s0 s1" by (simp add: download_ok_def)
    with True t ret p1 show ?thesis by (simp add: probed_Cons)
  next
    case False
    with t ret have eq: "try_filenames env b (f # fns) s = try_filenames env b fns s1" by simp
    show ?thesis unfolding eq using Cons.IH [OF e1] p1 False by (simp add: probed_Cons)
  qed
qed


lemma attemptDownload_run:
  assumes "extends s0 s"
  shows "probes (since s0 (snd (attemptDownload env bs fns s)))
           = probes (since s0 s) @ probed env (candidate_urls bs fns)
       \<and> (case find (usable env) (candidate_urls bs fns) of
            None \<Rightarrow> fst (attemptDownload env bs fns s) = Inl download_failed
          | Some u \<Rightarrow> fst (attemptDownload env bs fns s) = Inr (tempFile env)
                      \<and> download_ok env u s0 (snd (attemptDownload env bs fns s)))"
  using assms
proof (induction bs arbitrary: s)
  case Nil
  then show ?case by (simp add: candidate_urls_def)
next
  case (Cons b bs)
  let ?urls = "map (\<lambda>f. b @ ''/'' @ f) fns"
  obtain r s1 where t: "try_filenames env b fns s = (r, s1)" by (cases "try_filenames env b fns s")
  from t try_filenames_extends [OF Cons.prems, of env b fns] have e1: "extends s0 s1" by simp
  from try_filenames_run [OF Cons.prems, of env b fns] t
  have run: "probes (since s0 s1) = probes (since s0 s) @ probed env ?urls"
    "case find (usable env) ?urls of None \<Rightarrow> r = None
       | Some u \<Rightarrow> r = Some (tempFile env) \<and> download_ok env u s0 s1"
    by (auto split: option.splits)
  have cu: "candidate_urls (b # bs) fns = ?urls @ candidate_urls bs fns"
    by (simp add: candidate_urls_def)
  show ?case
  proof (cases "find (usable env) ?urls")
    case None
    with run t have eq: "attemptDownload env (b # bs) fns s = attemptDownload env bs fns s1"
      by simp
    show ?thesis unfolding eq using Cons.IH [OF e1] run None
      by (simp add: cu probed_append find_append probed_none)
  next
    case (Some u)
    with run t show ?thesis
      by (simp add: cu probed_append find_append)
  qed
qed

text \<open>
  Claim C2. \<open>attemptDownload\<close> sends its probes (the \<^verbatim>\<open>HEAD\<close> requests) to the URLs
  \<open>baseUrl/filename\<close> in the order of the nested loops, base URLs outside and filenames
  inside, up to and including the first usable URL and to no URL after it. If there is
  a usable URL the function returns the temporary path, the last retrieval is from the
  first usable URL, and its body is the file at that path. If there is none, every URL
  is probed and the function throws the error that names all mirrors and the canonical
  source.
\<close>

theorem download_order:
  "probes (since s (snd (attemptDownload env baseUrls filenames s)))
     = takeWhile (\<lambda>u. \<not> usable env u) (candidate_urls baseUrls filenames)
       @ (case find (usable env) (candidate_urls baseUrls filenames) of
            None \<Rightarrow> []
          | Some u \<Rightarrow> [u])
   \<and> (case find (usable env) (candidate_urls baseUrls filenames) of
        None \<Rightarrow>
          fst (attemptDownload env baseUrls filenames s)
            = Inl (Exn None ''Failed to download Zig from all available mirrors and the canonical source.'')
      | Some u \<Rightarrow>
          fst (attemptDownload env baseUrls filenames s) = Inr (tempFile env)
          \<and> download_ok env u s (snd (attemptDownload env baseUrls filenames s)))"
proof -
  have "extends s s" by simp
  from attemptDownload_run [OF this, of env baseUrls filenames] show ?thesis
    by (auto simp: probed_def download_failed_def split: option.splits)
qed

text \<open>
  The example of the specification: mirrors \<open>M1\<close> and \<open>M2\<close>, the canonical source \<open>C\<close>,
  filenames \<open>F1\<close> and \<open>F2\<close>, and only \<open>M2/F2\<close> exists.
\<close>

theorem download_order_witness:
  "probes (since (start staged_world)
       (snd (attemptDownload second_mirror_env [M1, M2, C] [F1, F2] (start staged_world))))
     = [M1 @ ''/'' @ F1, M1 @ ''/'' @ F2, M2 @ ''/'' @ F1, M2 @ ''/'' @ F2]
   \<and> fst (attemptDownload second_mirror_env [M1, M2, C] [F1, F2] (start staged_world))
       = Inr (tempFile second_mirror_env)
   \<and> download_ok second_mirror_env (M2 @ ''/'' @ F2) (start staged_world)
       (snd (attemptDownload second_mirror_env [M1, M2, C] [F1, F2] (start staged_world)))"
proof -
  have u: "usable second_mirror_env url
      \<longleftrightarrow> url = ''https://m2.example/zig/zig-x86_64-linux-0.11.0.tar.xz''" for url
    by (simp add: usable_def second_mirror_env_def M2_def F2_def)
  from download_order [of "start staged_world" second_mirror_env "[M1, M2, C]" "[F1, F2]"]
  show ?thesis unfolding M1_def M2_def C_def F1_def F2_def
    by (simp add: u candidate_urls_def del: attemptDownload.simps try_filenames.simps)
qed

subsection \<open>Activation\<close>

lemma link_changes_append [simp]: "link_changes (xs @ ys) = link_changes xs @ link_changes ys"
  by (induction xs rule: link_changes.induct) auto

lemma init_hint_extends [simp]: "extends s0 s \<Longrightarrow> extends s0 (init_hint env s)"
  by (simp add: init_hint_def)

lemma init_hint_cur [simp]: "cur (init_hint env s) = cur s"
  by (simp add: init_hint_def)

lemma init_hint_link_changes [simp]:
  "extends s0 s \<Longrightarrow> link_changes (since s0 (init_hint env s)) = link_changes (since s0 s)"
  by (simp add: init_hint_def)

text \<open>
  Claim C6, as amended. The states are \<open>active_dir w = None\<close> (No-Active) and
  \<open>active_dir w = Some p\<close> (Active, \<open>p\<close> the path of the directory). The link lives in
  \<^verbatim>\<open>~/.zvm/shims\<close>, which only \<^verbatim>\<open>zvm init\<close> creates; \<open>handleUse\<close> does not. Where that
  directory exists, activating \<open>d\<close> from either state succeeds and ends in Active with
  the path of \<open>d\<close>: an existing link is removed first, then the new link is created
  (a junction on Windows, a directory link elsewhere). Deactivating from either state,
  with or without that directory, succeeds and ends in No-Active; when there was no
  link the only output is the informational line. \<open>handleUse\<close> of a token that resolves
  to \<open>d\<close> is this activation of \<open>d\<close>.
\<close>

theorem activation:
  "(shims (cur s) \<noteq> NoShimsDir \<longrightarrow>
      fst (activate env d s) = Inr ()
      \<and> active_dir (cur (snd (activate env d s))) = Some (path_join (INSTALL_BASE_DIR env) d)
      \<and> link_changes (since s (snd (activate env d s)))
          = (if active_dir (cur s) = None then [] else [UnlinkLink])
            @ [Symlink (path_join (INSTALL_BASE_DIR env) d)
                 (if platform env = ''win32'' then ''junction'' else ''dir'')])
   \<and> fst (handleDeactivate env s) = Inr ()
   \<and> active_dir (cur (snd (handleDeactivate env s))) = None
   \<and> (active_dir (cur s) = None \<longrightarrow>
        since s (snd (handleDeactivate env s)) = [LogInfo ''No version is currently active.''])
   \<and> (t \<noteq> [] \<and> d \<noteq> [] \<and> resolveVersion (cur s) t = Inr (Some d) \<longrightarrow>
        handleUse env t s = activate env d s)"
proof (intro conjI impI)
  assume sh: "shims (cur s) \<noteq> NoShimsDir"
  then obtain l where l: "shims (cur s) = Shims l" by (cases "shims (cur s)") auto
  show "fst (activate env d s) = Inr ()"
    using l by (cases l)
      (simp_all add: activate_def create_link_def fs_unlink_link_def fs_symlink_def Let_def
        is_code_def ENOENT_def sys_error_def)
  show "active_dir (cur (snd (activate env d s))) = Some (path_join (INSTALL_BASE_DIR env) d)"
    using l by (cases l)
      (simp_all add: activate_def create_link_def fs_unlink_link_def fs_symlink_def Let_def
        is_code_def ENOENT_def sys_error_def active_dir_def)
  show "link_changes (since s (snd (activate env d s)))
          = (if active_dir (cur s) = None then [] else [UnlinkLink])
            @ [Symlink (path_join (INSTALL_BASE_DIR env) d)
                 (if platform env = ''win32'' then ''junction'' else ''dir'')]"
    using l by (cases l)
      (auto simp: activate_def create_link_def fs_unlink_link_def fs_symlink_def Let_def
        is_code_def ENOENT_def sys_error_def active_dir_def)
next
  show "fst (handleDeactivate env s) = Inr ()"
    by (simp add: handleDeactivate_def fs_unlink_link_def is_code_def ENOENT_def sys_error_def
        split: shims.splits option.splits)
  show "active_dir (cur (snd (handleDeactivate env s))) = None"
    by (simp add: handleDeactivate_def fs_unlink_link_def is_code_def ENOENT_def sys_error_def
        active_dir_def split: shims.splits option.splits)
next
  assume "active_dir (cur s) = None"
  then show "since s (snd (handleDeactivate env s)) = [LogInfo ''No version is currently active.'']"
    by (auto simp: handleDeactivate_def fs_unlink_link_def is_code_def ENOENT_def sys_error_def
        active_dir_def split: shims.splits option.splits)
next
  assume "t \<noteq> [] \<and> d \<noteq> [] \<and> resolveVersion (cur s) t = Inr (Some d)"
  then show "handleUse env t s = activate env d s"
    by (simp add: handleUse_def use_target_def)
qed

theorem activation_witness:
  "shims (cur switching_state) \<noteq> NoShimsDir
   \<and> resolveVersion (cur switching_state) ''0.11.0'' = Inr (Some ''zig-linux-x86_64-0.11.0'')
   \<and> fst (handleUse example_env ''0.11.0'' switching_state) = Inr ()
   \<and> active_dir (cur (snd (handleUse example_env ''0.11.0'' switching_state)))
       = Some ''/home/u/.zvm/versions/zig-linux-x86_64-0.11.0''
   \<and> link_changes (since switching_state (snd (handleUse example_env ''0.11.0'' switching_state)))
       = [UnlinkLink, Symlink ''/home/u/.zvm/versions/zig-linux-x86_64-0.11.0'' ''dir'']
   \<and> active_dir (cur (snd (handleDeactivate example_env switching_state))) = None"
proof -
  have sh: "shims (cur switching_state) \<noteq> NoShimsDir"
    by (simp add: switching_state_def start_def)
  have r: "resolveVersion (cur switching_state) ''0.11.0'' = Inr (Some ''zig-linux-x86_64-0.11.0'')"
    by (simp add: switching_state_def start_def installed_world_def resolveVersion_def
        getAliases_def read_aliases_file_def ENOENT_def sys_error_def is_code_def js_or_def
        js_get_def object_prototype_props_def truthy_def to_string_def readdir_root_def
        str_includes_def pick_match_def Let_def sublist_code)
  have a: "active_dir (cur switching_state) \<noteq> None"
    by (simp add: switching_state_def start_def active_dir_def)
  have p: "path_join (INSTALL_BASE_DIR example_env) ''zig-linux-x86_64-0.11.0''
      = ''/home/u/.zvm/versions/zig-linux-x86_64-0.11.0''"
    "platform example_env \<noteq> ''win32''"
    by (simp_all add: path_join_def INSTALL_BASE_DIR_def ZVM_DIR_def example_env_def)
  from activation [of switching_state example_env "''zig-linux-x86_64-0.11.0''" "''0.11.0''"]
    sh r a p
  show ?thesis by simp
qed

text \<open>
  Claim C6 as stated fails: on a machine where a version was installed and \<^verbatim>\<open>zvm init\<close>
  was never run, \<^verbatim>\<open>zvm use 0.11.0\<close> throws and the state stays No-Active.
\<close>

theorem activation_without_shims_counterexample:
  "resolveVersion installed_world ''0.11.0'' = Inr (Some ''zig-linux-x86_64-0.11.0'')
   \<and> active_dir installed_world = None
   \<and> fst (handleUse example_env ''0.11.0'' (start installed_world))
       = Inl (ENOENT ''symlink active'')
   \<and> active_dir (cur (snd (handleUse example_env ''0.11.0'' (start installed_world)))) = None"
proof -
  have r: "resolveVersion installed_world ''0.11.0'' = Inr (Some ''zig-linux-x86_64-0.11.0'')"
    by (simp add: installed_world_def resolveVersion_def
        getAliases_def read_aliases_file_def ENOENT_def sys_error_def is_code_def js_or_def
        js_get_def object_prototype_props_def truthy_def to_string_def readdir_root_def
        str_includes_def pick_match_def Let_def sublist_code)
  have s: "shims installed_world = NoShimsDir" by (simp add: installed_world_def)
  from r s show ?thesis
    by (simp add: handleUse_def use_target_def start_def activate_def create_link_def
        fs_unlink_link_def fs_symlink_def Let_def is_code_def ENOENT_def sys_error_def
        active_dir_def)
qed

subsection \<open>Removal\<close>




lemma getAliases_written [simp]:
  "alias_file w = JsonObject m \<Longrightarrow> getAliases w = Inr m"
  by (simp add: getAliases_def read_aliases_file_def)

lemma disk_changes_append [simp]: "disk_changes (xs @ ys) = disk_changes xs @ disk_changes ys"
  by (simp add: disk_changes_def)

lemma disk_changes_Nil [simp]: "disk_changes [] = []"
  by (simp add: disk_changes_def)

lemma disk_changes_Cons [simp]:
  "disk_changes (ev # evs) = (if changes_disk ev then ev # disk_changes evs else disk_changes evs)"
  by (simp add: disk_changes_def)

lemma init_hint_disk_changes [simp]:
  "extends s0 s \<Longrightarrow> disk_changes (since s0 (init_hint env s)) = disk_changes (since s0 s)"
  by (simp add: init_hint_def)





subsection \<open>Installing\<close>

lemma last_world_Nil [simp]: "last_world w [] = w"
  by (simp add: last_world_def)

lemma last_world_snoc [simp]: "last_world w (h @ [(ev, w')]) = w'"
  by (simp add: last_world_def)

lemma last_world_Cons [simp]: "last_world w ((ev, w') # h) = last_world w' h"
  by (simp add: last_world_def)

lemma atomic_run_append:
  "atomic_run f final w (h1 @ h2)
     = (atomic_run f final w h1 \<and> atomic_run f final (last_world w h1) h2)"
  by (induction h1 arbitrary: w) auto

lemma run_ok_refl [simp]: "run_ok f final s s"
  by (simp add: run_ok_def new_hist_def)

lemma run_ok_extends: "run_ok f final s0 s \<Longrightarrow> extends s0 s"
  by (simp add: run_ok_def)

lemma new_hist_emit:
  "extends s0 s \<Longrightarrow> new_hist s0 (emit ev s) = new_hist s0 s @ [(ev, apply_event ev (cur s))]"
  by (auto simp: extends_def new_hist_def emit_def Let_def prefix_def)

lemma run_ok_emit:
  "run_ok f final s0 s \<Longrightarrow> step_ok f final (cur s) ev (apply_event ev (cur s)) \<Longrightarrow>
   run_ok f final s0 (emit ev s)"
  by (simp add: run_ok_def new_hist_emit atomic_run_append)

lemma step_ok_quiet:
  "\<not> touches_versions ev \<Longrightarrow> step_ok f final w ev (apply_event ev w)"
  by (cases ev rule: touches_versions.cases) (simp_all add: step_ok_def)

lemma run_ok_emit_quiet [simp]:
  "run_ok f final s0 s \<Longrightarrow> \<not> touches_versions ev \<Longrightarrow> run_ok f final s0 (emit ev s)"
  by (simp add: run_ok_emit step_ok_quiet)

lemma versions_emit_quiet [simp]:
  "\<not> touches_versions ev \<Longrightarrow> versions (cur (emit ev s)) = versions (cur s)"
  by (cases ev rule: touches_versions.cases) simp_all

lemma staging_neq [simp]: "staging n \<noteq> n" "n \<noteq> staging n"
  by (simp_all add: staging_def)

lemma entry_exists_others: "entry_exists w final \<longleftrightarrow> final \<in> fst ` set (others final w)"
  by (force simp: entry_exists_def others_def)

lemma filter_map_entry:
  "filter (\<lambda>(k, d). k \<noteq> n) (AList.map_entry n g vs) = filter (\<lambda>(k, d). k \<noteq> n) vs"
  by (induction vs) auto

lemma others_Mkdir [simp]: "others final (apply_event (Mkdir (staging final)) w) = others final w"
  by (simp add: others_def entries_def)

lemma others_TarWrite [simp]:
  "others final (apply_event (TarWrite (staging final) p c) w) = others final w"
  by (cases "versions w") (simp_all add: others_def entries_def filter_map_entry)

lemma step_ok_Mkdir [simp]:
  "\<not> entry_exists w final \<Longrightarrow>
   step_ok f final w (Mkdir (staging final)) (apply_event (Mkdir (staging final)) w)"
  by (simp add: step_ok_def)

lemma step_ok_TarWrite [simp]:
  "\<not> entry_exists w final \<Longrightarrow>
   step_ok f final w (TarWrite (staging final) p c)
     (apply_event (TarWrite (staging final) p c) w)"
  by (simp add: step_ok_def)

lemma entry_exists_cong_others:
  "others final w' = others final w \<Longrightarrow> entry_exists w' final = entry_exists w final"
  by (simp add: entry_exists_others)

lemma entry_exists_TarWrite [simp]:
  "entry_exists (apply_event (TarWrite (staging final) p c) w) final = entry_exists w final"
  by (rule entry_exists_cong_others) simp

lemma entry_exists_Mkdir [simp]:
  "entry_exists (apply_event (Mkdir (staging final)) w) final = entry_exists w final"
  by (rule entry_exists_cong_others) simp



lemma tar_write_all_run_ok [simp]:
  "run_ok f final s0 s \<Longrightarrow> \<not> entry_exists (cur s) final \<Longrightarrow>
   run_ok f final s0 (tar_write_all (staging final) ws s)"
  by (induction ws arbitrary: s) (auto simp: run_ok_emit)

lemma tar_write_all_tmp [simp]: "tmp (cur (tar_write_all n ws s)) = tmp (cur s)"
  by (induction ws arbitrary: s) auto

lemma tar_write_all_others [simp]:
  "others final (cur (tar_write_all (staging final) ws s)) = others final (cur s)"
  by (induction ws arbitrary: s) auto







lemma fs_unlink_tmp_run_ok [simp]:
  "run_ok f final s0 s \<Longrightarrow> run_ok f final s0 (snd (fs_unlink_tmp g s))"
  by (simp add: fs_unlink_tmp_def split: option.splits)









lemma handleAlias_run_ok [simp]:
  "run_ok f final s0 s \<Longrightarrow> run_ok f final s0 (snd (handleAlias env a v s))"
  by (simp add: handleAlias_def Let_def split: sum.splits option.splits)






subsection \<open>The conflict\<close>

lemma version_changes_simps [simp]:
  "version_changes [] = []"
  "version_changes (ev # evs)
     = (if touches_versions ev then ev # version_changes evs else version_changes evs)"
  "version_changes (xs @ ys) = version_changes xs @ version_changes ys"
  by (simp_all add: version_changes_def)












subsection \<open>The normalized version\<close>

lemma not_digit_dot [simp]: "\<not> is_digit CHR ''.''"
  by (simp add: is_digit_def)

lemma split_on_no_sep: "c \<notin> set x \<Longrightarrow> split_on c x = [x]"
proof (induction x)
  case (Cons a x)
  then have "a \<noteq> c" "split_on c x = [x]" by auto
  then show ?case by simp
qed simp

lemma split_on_sep: "c \<notin> set x \<Longrightarrow> split_on c (x @ c # y) = x # split_on c y"
proof (induction x)
  case (Cons a x)
  then have "a \<noteq> c" "split_on c (x @ c # y) = x # split_on c y" by auto
  then show ?case by simp
qed simp

lemma split_on_nonempty: "split_on c s \<noteq> []"
  by (induction s) (simp_all split: list.splits)

lemma split_on_single: "split_on c s = [x] \<Longrightarrow> s = x \<and> c \<notin> set x"
proof (induction s arbitrary: x)
  case Nil
  then show ?case by simp
next
  case (Cons a s)
  show ?case
  proof (cases "a = c")
    case True
    with Cons.prems split_on_nonempty [of c s] show ?thesis by simp
  next
    case False
    with Cons.prems obtain p where p: "split_on c s = [p]" "x = a # p"
      by (cases "split_on c s") (simp_all add: split_on_nonempty)
    from Cons.IH [OF p(1)] p False show ?thesis by simp
  qed
qed

lemma split_on_more:
  "split_on c s = x # y # rest \<Longrightarrow> \<exists>t. s = x @ c # t \<and> split_on c t = y # rest \<and> c \<notin> set x"
proof (induction s arbitrary: x)
  case Nil
  then show ?case by simp
next
  case (Cons a s)
  show ?case
  proof (cases "a = c")
    case True
    with Cons.prems show ?thesis by simp
  next
    case False
    with Cons.prems obtain p where p: "split_on c s = p # y # rest" "x = a # p"
      by (cases "split_on c s") (simp_all add: split_on_nonempty)
    from Cons.IH [OF p(1)] obtain t where "s = p @ c # t" "split_on c t = y # rest" "c \<notin> set p"
      by blast
    with p False show ?thesis by simp
  qed
qed

lemma digits_no_dot: "digits a \<Longrightarrow> CHR ''.'' \<notin> set a"
  using not_digit_dot by (auto simp: digits_def list_all_iff)

lemma is_mmp_iff:
  "is_mmp s \<longleftrightarrow> (\<exists>a b c. s = a @ ''.'' @ b @ ''.'' @ c \<and> digits a \<and> digits b \<and> digits c)"
proof
  assume "is_mmp s"
  then obtain a b c where s: "split_on CHR ''.'' s = [a, b, c]" and d: "digits a" "digits b" "digits c"
    by (auto simp: is_mmp_def split: list.splits)
  from split_on_more [OF s] obtain t where t: "s = a @ CHR ''.'' # t" "split_on CHR ''.'' t = [b, c]"
    by blast
  from split_on_more [OF t(2)] obtain t' where t': "t = b @ CHR ''.'' # t'" "split_on CHR ''.'' t' = [c]"
    by blast
  from split_on_single [OF t'(2)] have "t' = c" by simp
  with t t' d show "\<exists>a b c. s = a @ ''.'' @ b @ ''.'' @ c \<and> digits a \<and> digits b \<and> digits c"
    by auto
next
  assume "\<exists>a b c. s = a @ ''.'' @ b @ ''.'' @ c \<and> digits a \<and> digits b \<and> digits c"
  then obtain a b c where s: "s = a @ ''.'' @ b @ ''.'' @ c" and d: "digits a" "digits b" "digits c"
    by blast
  then have "split_on CHR ''.'' s = [a, b, c]"
    by (simp add: split_on_sep split_on_no_sep digits_no_dot)
  with d show "is_mmp s" by (simp add: is_mmp_def)
qed

lemma takeWhile_digits:
  "digits a \<Longrightarrow> takeWhile is_digit (a @ CHR ''.'' # t) = a"
  "digits a \<Longrightarrow> dropWhile is_digit (a @ CHR ''.'' # t) = CHR ''.'' # t"
  by (auto simp: digits_def list_all_iff takeWhile_append2 dropWhile_append2)

lemma takeWhile_digits_end:
  "digits c \<Longrightarrow> takeWhile is_digit (c @ post) = c @ takeWhile is_digit post"
  "digits c \<Longrightarrow> dropWhile is_digit (c @ post) = dropWhile is_digit post"
  by (auto simp: digits_def list_all_iff takeWhile_append2 dropWhile_append2)

lemma version_core_of_mmp:
  assumes "digits a" "digits b" "digits c"
  shows "version_core (a @ ''.'' @ b @ ''.'' @ c @ post)
     = Some (a @ ''.'' @ b @ ''.'' @ c @ takeWhile is_digit post, dropWhile is_digit post)"
  using assms
  by (simp add: version_core_def seq_def plus_of_def lit_def takeWhile_digits
      takeWhile_digits_end) (simp add: digits_def)?

lemma seq_Some:
  "seq m1 m2 s = Some (x, r) \<longleftrightarrow> (\<exists>a r1 b. m1 s = Some (a, r1) \<and> m2 r1 = Some (b, r) \<and> x = a @ b)"
  by (auto simp: seq_def split: option.splits)

lemma plus_of_Some:
  "plus_of P s = Some (a, r) \<longleftrightarrow> a = takeWhile P s \<and> r = dropWhile P s \<and> a \<noteq> []"
  by (auto simp: plus_of_def)

lemma lit_Some: "lit t s = Some (a, r) \<longleftrightarrow> a = t \<and> s = t @ r"
  by (auto simp: lit_def prefix_def)

lemma version_core_Some:
  assumes "version_core s = Some (m, rest)"
  shows "s = m @ rest \<and> is_mmp m"
proof -
  from assms obtain a r1 r2 b r3 r4 c where
    a: "a = takeWhile is_digit s" "r1 = dropWhile is_digit s" "a \<noteq> []"
    and r1: "r1 = ''.'' @ r2"
    and b: "b = takeWhile is_digit r2" "r3 = dropWhile is_digit r2" "b \<noteq> []"
    and r3: "r3 = ''.'' @ r4"
    and c: "c = takeWhile is_digit r4" "rest = dropWhile is_digit r4" "c \<noteq> []"
    and m: "m = a @ ''.'' @ b @ ''.'' @ c"
    unfolding version_core_def seq_Some plus_of_Some lit_Some by auto
  have "s = a @ r1" "r2 = b @ r3" "r4 = c @ rest" using a b c by simp_all
  with r1 r3 m have s: "s = m @ rest" by simp
  have "digits a" "digits b" "digits c"
    using a b c by (auto simp: digits_def list_all_iff dest: set_takeWhileD)
  with m have "is_mmp m" unfolding is_mmp_iff by blast
  with s show ?thesis by simp
qed

lemma version_core_prefix_mmp:
  assumes "s = u @ post" "is_mmp u"
  shows "\<exists>m rest. version_core s = Some (m, rest) \<and> length u \<le> length m"
proof -
  from assms(2) obtain a b c where u: "u = a @ ''.'' @ b @ ''.'' @ c"
    and d: "digits a" "digits b" "digits c"
    unfolding is_mmp_iff by blast
  from version_core_of_mmp [OF d, of post] assms(1) u show ?thesis by simp
qed

lemma matches_version_iff:
  "matches_version u \<longleftrightarrow>
     (\<exists>core suf. u = core @ suf \<and> is_mmp core \<and> (suf = [] \<or> is_dev_suffix suf))"
proof
  assume "matches_version u"
  then have "\<exists>k. k \<le> length u \<and> is_mmp (take k u)
      \<and> (k = length u \<or> is_dev_suffix (drop k u))"
    unfolding matches_version_def list_ex_iff by (metis atLeastLessThan_iff less_Suc_eq_le set_upt)
  then obtain k where k: "k \<le> length u" "is_mmp (take k u)"
      "k = length u \<or> is_dev_suffix (drop k u)"
    by blast
  have "u = take k u @ drop k u" by simp
  moreover from k have "drop k u = [] \<or> is_dev_suffix (drop k u)" by auto
  ultimately show "\<exists>core suf. u = core @ suf \<and> is_mmp core \<and> (suf = [] \<or> is_dev_suffix suf)"
    using k(2) by blast
next
  assume "\<exists>core suf. u = core @ suf \<and> is_mmp core \<and> (suf = [] \<or> is_dev_suffix suf)"
  then obtain core suf where c: "u = core @ suf" "is_mmp core" "suf = [] \<or> is_dev_suffix suf"
    by blast
  then have "is_mmp (take (length core) u) \<and>
      (length core = length u \<or> is_dev_suffix (drop (length core) u))" by auto
  moreover have "length core \<in> set [0..<Suc (length u)]" using c(1) by simp
  ultimately show "matches_version u" unfolding matches_version_def list_ex_iff by blast
qed

lemma dev_suffix_has_dev: "is_dev_suffix suf \<Longrightarrow> sublist ''-dev'' (core @ suf)"
proof -
  assume "is_dev_suffix suf"
  then have "prefix ''-dev.'' suf" by (simp add: is_dev_suffix_def)
  then obtain r where "suf = ''-dev'' @ (''.'' @ r)" by (auto simp: prefix_def)
  then have "core @ suf = core @ ''-dev'' @ (''.'' @ r)" by simp
  then show ?thesis unfolding sublist_def by blast
qed

lemma matches_without_dev:
  "matches_version u \<Longrightarrow> \<not> sublist ''-dev'' u \<Longrightarrow> is_mmp u"
  unfolding matches_version_iff using dev_suffix_has_dev by fastforce

lemma is_mmp_matches: "is_mmp u \<Longrightarrow> matches_version u"
  unfolding matches_version_iff by force

lemma dev_suffix_None:
  assumes "\<not> sublist ''-dev'' (m @ rest)"
  shows "dev_suffix rest = None"
proof (rule ccontr)
  assume "dev_suffix rest \<noteq> None"
  then obtain x r where "dev_suffix rest = Some (x, r)" by auto
  then obtain r1 where "rest = ''-dev.'' @ r1"
    unfolding dev_suffix_def seq_Some lit_Some by auto
  then have "m @ rest = m @ ''-dev'' @ (''.'' @ r1)" by simp
  then have "sublist ''-dev'' (m @ rest)" unfolding sublist_def by blast
  with assms show False by simp
qed

lemma version_regex_core:
  assumes "\<not> sublist ''-dev'' s"
  shows "version_regex s = version_core s"
proof (cases "version_core s")
  case None
  then show ?thesis by (simp add: version_regex_def seq_def)
next
  case (Some p)
  obtain m rest where p: "p = (m, rest)" by (cases p)
  with Some version_core_Some [of s m rest] have "s = m @ rest" by simp
  with assms have "dev_suffix rest = None" using dev_suffix_None by blast
  with Some p show ?thesis by (simp add: version_regex_def seq_def opt_def)
qed

lemma not_sublist_tl: "\<not> sublist t (c # cs) \<Longrightarrow> \<not> sublist t cs"
  by (meson sublist_Cons_right)

lemma regex_match_version:
  assumes "\<not> sublist ''-dev'' s"
  shows "(case regex_match version_regex s of
           None \<Rightarrow> \<forall>pre u post. s = pre @ u @ post \<longrightarrow> \<not> is_mmp u
         | Some m \<Rightarrow>
             \<exists>pre post. s = pre @ m @ post \<and> is_mmp m
               \<and> (\<forall>pre' u post'. s = pre' @ u @ post' \<and> is_mmp u \<longrightarrow>
                      length pre \<le> length pre'
                      \<and> (length pre' = length pre \<longrightarrow> length u \<le> length m)))"
  using assms
proof (induction s)
  case Nil
  have "\<not> is_mmp []" unfolding is_mmp_iff by simp
  moreover have "version_regex [] = None"
    by (simp add: version_regex_def version_core_def seq_def plus_of_def)
  ultimately show ?case by simp
next
  case (Cons c cs)
  have vr: "version_regex (c # cs) = version_core (c # cs)"
    by (rule version_regex_core [OF Cons.prems])
  show ?case
  proof (cases "version_core (c # cs)")
    case (Some p)
    obtain m rest where p: "p = (m, rest)" by (cases p)
    with Some version_core_Some [of "c # cs" m rest]
    have s: "c # cs = m @ rest" "is_mmp m" by simp_all
    have "length u \<le> length m" if "c # cs = u @ post'" "is_mmp u" for u post'
      using version_core_prefix_mmp [OF that] Some p by auto
    then have "\<forall>pre' u post'. c # cs = pre' @ u @ post' \<and> is_mmp u \<longrightarrow>
        length [] \<le> length pre' \<and> (length pre' = length ([]::string) \<longrightarrow> length u \<le> length m)"
      by auto
    with s have "\<exists>pre post. c # cs = pre @ m @ post \<and> is_mmp m
        \<and> (\<forall>pre' u post'. c # cs = pre' @ u @ post' \<and> is_mmp u \<longrightarrow>
               length pre \<le> length pre'
               \<and> (length pre' = length pre \<longrightarrow> length u \<le> length m))"
      by (intro exI [of _ "[]"] exI [of _ rest]) simp
    with Some p vr show ?thesis by simp
  next
    case None
    have rm: "regex_match version_regex (c # cs) = regex_match version_regex cs"
      using None vr by simp
    have no_here: "pre' \<noteq> []" if "c # cs = pre' @ u @ post'" "is_mmp u" for pre' u post'
    proof
      assume "pre' = []"
      with that version_core_prefix_mmp [of "c # cs" u post'] None show False by simp
    qed
    from Cons.prems have nd: "\<not> sublist ''-dev'' cs" by (rule not_sublist_tl)
    show ?thesis
    proof (cases "regex_match version_regex cs")
      case n: None
      with Cons.IH [OF nd] have ih: "\<forall>pre u post. cs = pre @ u @ post \<longrightarrow> \<not> is_mmp u" by simp
      have "\<not> is_mmp u" if "c # cs = pre @ u @ post" for pre u post
      proof
        assume m: "is_mmp u"
        with that no_here have "pre \<noteq> []" by blast
        with that have "\<exists>pre''. pre = c # pre'' \<and> cs = pre'' @ u @ post"
          by (cases pre) auto
        then obtain pre'' where "pre = c # pre''" "cs = pre'' @ u @ post" by blast
        with ih m show False by blast
      qed
      with n rm show ?thesis by simp
    next
      case sm: (Some m)
      with Cons.IH [OF nd] obtain pre post where ih: "cs = pre @ m @ post" "is_mmp m"
        "\<forall>pre' u post'. cs = pre' @ u @ post' \<and> is_mmp u \<longrightarrow>
            length pre \<le> length pre' \<and> (length pre' = length pre \<longrightarrow> length u \<le> length m)"
        by auto
      have "length (c # pre) \<le> length pre'
          \<and> (length pre' = length (c # pre) \<longrightarrow> length u \<le> length m)"
        if "c # cs = pre' @ u @ post'" "is_mmp u" for pre' u post'
      proof -
        from that no_here have "pre' \<noteq> []" by blast
        with that have "\<exists>pre''. pre' = c # pre'' \<and> cs = pre'' @ u @ post'"
          by (cases pre') auto
        then obtain pre'' where p: "pre' = c # pre''" "cs = pre'' @ u @ post'" by blast
        with ih(3) that(2) have "length pre \<le> length pre''
            \<and> (length pre'' = length pre \<longrightarrow> length u \<le> length m)" by blast
        with p show ?thesis by simp
      qed
      with ih have "\<exists>pre post. c # cs = pre @ m @ post \<and> is_mmp m
        \<and> (\<forall>pre' u post'. c # cs = pre' @ u @ post' \<and> is_mmp u \<longrightarrow>
               length pre \<le> length pre'
               \<and> (length pre' = length pre \<longrightarrow> length u \<le> length m))"
        by (intro exI [of _ "c # pre"] exI [of _ post]) simp
      with sm rm show ?thesis by simp
    qed
  qed
qed

lemma sublist_trans: "sublist a b \<Longrightarrow> sublist b c \<Longrightarrow> sublist a c"
  unfolding sublist_def by (metis append.assoc)

lemma sublist_mid: "sublist u (pre @ u @ post)"
  unfolding sublist_def by blast

text \<open>
  Claim C8, as amended. \<^verbatim>\<open>String.match\<close> returns the leftmost match, and from there the
  longest; it returns \<^verbatim>\<open>null\<close> when nothing matches, and \<^verbatim>\<open>null[0]\<close> throws. So: for every
  version \<open>v\<close> without \<^verbatim>\<open>-dev\<close> that has a substring of the pattern, the normalization
  succeeds, and the normalized version \<open>m\<close> is a substring of \<open>v\<close> of the pattern such that
  no substring of the pattern starts further left and none that starts at the same
  place is longer. The two filenames are built from \<open>m\<close>, the URL from \<open>v\<close> itself.
\<close>

theorem normalized_release_version:
  assumes nd: "\<not> str_includes v ''-dev''" and sub: "sublist u v" and mu: "matches_version u"
  shows "\<exists>m pre post. normalize v = Inr m \<and> v = pre @ m @ post \<and> matches_version m
     \<and> (\<forall>pre' u' post'. v = pre' @ u' @ post' \<and> matches_version u' \<longrightarrow>
            length pre \<le> length pre' \<and> (length pre' = length pre \<longrightarrow> length u' \<le> length m))
     \<and> (\<forall>os_target arch_target. getPlatformInfo env = Inr (os_target, arch_target) \<longrightarrow>
            getZigPackageInfo env v
              = Inr (ZIG_CANONICAL_URL @ ''/download/'' @ v,
                     [''zig-'' @ os_target @ ''-'' @ arch_target @ ''-'' @ m @ ''.''
                        @ (if os_target = ''windows'' then ''zip'' else ''tar.xz''),
                      ''zig-'' @ arch_target @ ''-'' @ os_target @ ''-'' @ m @ ''.''
                        @ (if os_target = ''windows'' then ''zip'' else ''tar.xz'')]))"
proof -
  from nd have ndv: "\<not> sublist ''-dev'' v" by (simp add: str_includes_def)
  have mmp: "is_mmp w" if "sublist w v" "matches_version w" for w
    using that ndv matches_without_dev sublist_trans by blast
  from sub obtain p q where v: "v = p @ u @ q" unfolding sublist_def by blast
  from mmp [OF sub mu] have u: "is_mmp u" .
  from regex_match_version [OF ndv] v u
  obtain m where m: "regex_match version_regex v = Some m"
    by (cases "regex_match version_regex v") auto
  with regex_match_version [OF ndv] obtain pre post where
    r: "v = pre @ m @ post" "is_mmp m"
      "\<forall>pre' u post'. v = pre' @ u @ post' \<and> is_mmp u \<longrightarrow>
          length pre \<le> length pre' \<and> (length pre' = length pre \<longrightarrow> length u \<le> length m)"
    by auto
  have n: "normalize v = Inr m" using nd m by (simp add: normalize_def)
  have left: "length pre \<le> length pre' \<and> (length pre' = length pre \<longrightarrow> length u' \<le> length m)"
    if "v = pre' @ u' @ post'" "matches_version u'" for pre' u' post'
  proof -
    from that(1) have "sublist u' v" using sublist_mid by simp
    then have "is_mmp u'" using that(2) by (rule mmp)
    with r(3) that(1) show ?thesis by blast
  qed
  have pk: "getZigPackageInfo env v
      = Inr (ZIG_CANONICAL_URL @ ''/download/'' @ v,
             [''zig-'' @ os_target @ ''-'' @ arch_target @ ''-'' @ m @ ''.''
                @ (if os_target = ''windows'' then ''zip'' else ''tar.xz''),
              ''zig-'' @ arch_target @ ''-'' @ os_target @ ''-'' @ m @ ''.''
                @ (if os_target = ''windows'' then ''zip'' else ''tar.xz'')])"
    if "getPlatformInfo env = Inr (os_target, arch_target)" for os_target arch_target
    using that n nd by (simp add: getZigPackageInfo_def Let_def)
  from n r(1) is_mmp_matches [OF r(2)] left pk show ?thesis by blast
qed

lemmas regex_eval =
  normalize_def str_includes_def sublist_code version_regex_def version_core_def
  dev_suffix_def seq_def opt_def lit_def plus_of_def is_digit_def is_hex_def

text \<open>A version with a trailing blank, as a shell variable may carry it.\<close>

theorem normalized_release_version_witness:
  "\<not> str_includes ''0.11.0 '' ''-dev'' \<and> sublist ''0.11.0'' ''0.11.0 ''
   \<and> matches_version ''0.11.0''
   \<and> (\<exists>m pre post. normalize ''0.11.0 '' = Inr m \<and> ''0.11.0 '' = pre @ m @ post
         \<and> m = ''0.11.0'' \<and> matches_version m
         \<and> getZigPackageInfo example_env ''0.11.0 ''
             = Inr (''https://ziglang.org/download/0.11.0 '',
                    [''zig-linux-x86_64-0.11.0.tar.xz'', ''zig-x86_64-linux-0.11.0.tar.xz'']))"
proof -
  have nd: "\<not> str_includes ''0.11.0 '' ''-dev''" by (simp add: str_includes_def sublist_code)
  have sub: "sublist ''0.11.0'' ''0.11.0 ''" by (simp add: sublist_code)
  have "is_mmp ''0.11.0''" by (simp add: is_mmp_def digits_def is_digit_def)
  then have mu: "matches_version ''0.11.0''" by (rule is_mmp_matches)
  have n: "normalize ''0.11.0 '' = Inr ''0.11.0''" by (simp add: regex_eval)
  have p: "getPlatformInfo example_env = Inr (''linux'', ''x86_64'')"
    by (simp add: getPlatformInfo_def example_env_def platformMap_def archMap_def)
  from normalized_release_version [OF nd sub mu, of example_env] n p nd sub mu
  show ?thesis by (auto simp: ZIG_CANONICAL_URL_def)
qed

text \<open>
  Claim C8 as stated fails twice. In \<^verbatim>\<open>1.2.3.44\<close> the match is \<^verbatim>\<open>1.2.3\<close>, the leftmost, and
  \<^verbatim>\<open>2.3.44\<close> is a longer substring of the pattern. For \<^verbatim>\<open>master\<close> nothing matches and the
  normalization throws.
\<close>

theorem normalize_counterexample:
  "\<not> str_includes ''1.2.3.44'' ''-dev'' \<and> normalize ''1.2.3.44'' = Inr ''1.2.3''
   \<and> sublist ''2.3.44'' ''1.2.3.44'' \<and> matches_version ''2.3.44''
   \<and> length ''1.2.3'' < length ''2.3.44''
   \<and> \<not> str_includes ''master'' ''-dev'' \<and> normalize ''master'' = Inl null_index
   \<and> getZigPackageInfo example_env ''master'' = Inl null_index"
proof -
  have "is_mmp ''2.3.44''" by (simp add: is_mmp_def digits_def is_digit_def)
  then have m: "matches_version ''2.3.44''" by (rule is_mmp_matches)
  have a: "\<not> str_includes ''1.2.3.44'' ''-dev''" "\<not> str_includes ''master'' ''-dev''"
    "sublist ''2.3.44'' ''1.2.3.44''"
    by (simp_all add: str_includes_def sublist_code)
  have b: "normalize ''1.2.3.44'' = Inr ''1.2.3''" "normalize ''master'' = Inl null_index"
    by (simp_all add: regex_eval)
  have c: "getZigPackageInfo example_env ''master'' = Inl null_index"
    using b(2)
    by (simp add: getZigPackageInfo_def getPlatformInfo_def example_env_def platformMap_def
        archMap_def Let_def)
  from m a b c show ?thesis by simp
qed

end
